theory Spec2Isabelle
  imports
    Complex_Main
    "HOL-Library.Word"
    "HOL-Library.List_Lexorder"
    "HOL-Library.Product_Lexorder"
    "HOL-Library.Sublist"
    "HOL-Library.AList"
    "HOL-Library.Multiset"
begin

section \<open>JavaScript strings\<close>

text \<open>
  A JavaScript string is a sequence of UTF-16 code units. File names, titles, HTML
  fragments and the template are all such strings. ASCII text is written through
  \<open>js\<close>; the few non-ASCII characters of \<^verbatim>\<open>scripts/build.js\<close> are given by their
  code units.
\<close>

type_synonym jschar = "16 word"
type_synonym jsstring = "jschar list"

definition js :: "string \<Rightarrow> jsstring" where
  "js s = map (\<lambda>c. of_nat (of_char c)) s"

text \<open>\<^verbatim>\<open>s.startsWith(p)\<close> and \<^verbatim>\<open>s.endsWith(p)\<close>.\<close>

definition startsWith :: "jsstring \<Rightarrow> jsstring \<Rightarrow> bool" where
  "startsWith s p \<longleftrightarrow> take (length p) s = p"

definition endsWith :: "jsstring \<Rightarrow> jsstring \<Rightarrow> bool" where
  "endsWith s p \<longleftrightarrow> length p \<le> length s \<and> drop (length s - length p) s = p"

text \<open>
  \<^verbatim>\<open>s.replace(/lit/g, rep)\<close> for a literal, non-empty pattern \<open>lit\<close> and a replacement
  without \<^verbatim>\<open>$\<close>: the matches are found from left to right, each search resuming after
  the previous match, and the replacement text is never searched again. Every global
  replacement of the program has this shape.
\<close>

function replaceGlobal :: "jsstring \<Rightarrow> jsstring \<Rightarrow> jsstring \<Rightarrow> jsstring" where
  "replaceGlobal lit rep [] = []"
| "replaceGlobal lit rep (c # cs) =
     (if startsWith (c # cs) lit
      then rep @ replaceGlobal lit rep (drop (length lit - 1) cs)
      else c # replaceGlobal lit rep cs)"
  by pat_completeness auto
termination
  by (relation "measure (\<lambda>(lit, rep, s). length s)") auto

section \<open>Configuration\<close>

definition POSTS_PER_PAGE :: nat where
  "POSTS_PER_PAGE = 10"

section \<open>Helpers\<close>

text \<open>\<^verbatim>\<open>escapeHtml\<close>: \<^verbatim>\<open>text.replace(/"/g, '&quot;')\<close>.\<close>

definition escapeHtml :: "jsstring \<Rightarrow> jsstring" where
  \<open>escapeHtml text = replaceGlobal (js ''"'') (js ''&quot;'') text\<close>

subsection \<open>The file name parser\<close>

record article =
  title :: jsstring
  date :: jsstring
  path :: jsstring
  filename :: jsstring

text \<open>
  The regular expressions of \<^verbatim>\<open>getArticleFromFilename\<close> are sequences of \<^verbatim>\<open>\d\<close> and
  literal characters, anchored at the start of the string. \<^verbatim>\<open>\d\<close> matches the ASCII
  digits only.
\<close>

datatype atom = Digit | Lit jschar

definition isDigit :: "jschar \<Rightarrow> bool" where
  "isDigit c \<longleftrightarrow> 0x30 \<le> c \<and> c \<le> 0x39"

fun matchAtom :: "atom \<Rightarrow> jschar \<Rightarrow> bool" where
  "matchAtom Digit c = isDigit c"
| "matchAtom (Lit l) c = (c = l)"

fun matchAnchored :: "atom list \<Rightarrow> jsstring \<Rightarrow> bool" where
  "matchAnchored [] s = True"
| "matchAnchored (a # as) [] = False"
| "matchAnchored (a # as) (c # cs) = (matchAtom a c \<and> matchAnchored as cs)"

text \<open>\<^verbatim>\<open>/^(\d{4}-\d{2}-\d{2})-/\<close>; the group is the first ten code units.\<close>

definition datePrefixRe :: "atom list" where
  "datePrefixRe =
     [Digit, Digit, Digit, Digit, Lit 0x2D, Digit, Digit, Lit 0x2D, Digit, Digit, Lit 0x2D]"

definition dateMatch :: "jsstring \<Rightarrow> jsstring option" where
  "dateMatch file = (if matchAnchored datePrefixRe file then Some (take 10 file) else None)"

text \<open>\<^verbatim>\<open>.replace(/^\d{4}-\d{2}-\d{2}-/, '')\<close> and \<^verbatim>\<open>.replace(/\.html$/, '')\<close>.\<close>

definition stripDatePrefix :: "jsstring \<Rightarrow> jsstring" where
  "stripDatePrefix s = (if matchAnchored datePrefixRe s then drop (length datePrefixRe) s else s)"

definition stripHtmlSuffix :: "jsstring \<Rightarrow> jsstring" where
  "stripHtmlSuffix s =
     (if endsWith s (js ''.html'') then take (length s - length (js ''.html'')) s else s)"

text \<open>The em dash U+2014 and the fullwidth colon U+FF1A.\<close>

definition emDash :: jsstring where
  "emDash = [0x2014]"

definition fullwidthColon :: jsstring where
  "fullwidthColon = [0xFF1A]"

definition decodeTitle :: "jsstring \<Rightarrow> jsstring" where
  "decodeTitle s =
     replaceGlobal (js ''%EF%BC%9A'') fullwidthColon
       (replaceGlobal (js ''%E2%80%94'') emDash
         (replaceGlobal (js ''%20'') (js '' '') s))"

definition getArticleFromFilename :: "jsstring \<Rightarrow> article option" where
  "getArticleFromFilename file =
     (if file = js ''index.html'' \<or> \<not> endsWith file (js ''.html'') then None
      else case dateMatch file of
        None \<Rightarrow> None
      | Some dateStr \<Rightarrow>
          Some \<lparr> title = decodeTitle (stripHtmlSuffix (stripDatePrefix file)),
                 date = dateStr,
                 path = js ''pages/'' @ file,
                 filename = file \<rparr>)"

subsection \<open>Arrays and numbers\<close>

text \<open>\<^verbatim>\<open>xs.slice(start, end)\<close> for indices that are natural numbers: both are clamped to the length.\<close>

definition slice :: "'a list \<Rightarrow> nat \<Rightarrow> nat \<Rightarrow> 'a list" where
  "slice xs startIndex endIndex = take (endIndex - startIndex) (drop startIndex xs)"

text \<open>
  \<^verbatim>\<open>xs.sort(cmp)\<close>. The language requires the sort to be stable and, for a consistent
  comparator, to return the ordered permutation; an insertion sort that keeps the earlier
  of two equal elements first computes it. (For an inconsistent comparator the language
  leaves the order to the implementation.)
\<close>

fun insertSorted :: "('a \<Rightarrow> 'a \<Rightarrow> int) \<Rightarrow> 'a \<Rightarrow> 'a list \<Rightarrow> 'a list" where
  "insertSorted cmp x [] = [x]"
| "insertSorted cmp x (y # ys) =
     (if cmp x y \<le> 0 then x # y # ys else y # insertSorted cmp x ys)"

fun arraySort :: "('a \<Rightarrow> 'a \<Rightarrow> int) \<Rightarrow> 'a list \<Rightarrow> 'a list" where
  "arraySort cmp [] = []"
| "arraySort cmp (x # xs) = insertSorted cmp x (arraySort cmp xs)"

text \<open>
  The decimal rendering of a natural number, as \<^verbatim>\<open>${n}\<close> in a template literal and the
  conversion of a number passed where a string is expected give it (for the page numbers
  and years of the program, all below \<open>10\<^sup>2\<^sup>1\<close>).
\<close>

function numToString :: "nat \<Rightarrow> jsstring" where
  "numToString n =
     (if n < 10 then [0x30 + of_nat n]
      else numToString (n div 10) @ [0x30 + of_nat (n mod 10)])"
  by pat_completeness auto
termination
  by (relation "measure id") auto

declare numToString.simps [simp del]

subsection \<open>The article list fragment\<close>

text \<open>
  \<^verbatim>\<open>groupedByDate\<close> is an object used as a dictionary from date strings to arrays. Its own
  keys are kept in insertion order. (The dates are those \<open>dateMatch\<close> returns, digits and
  hyphens, so none is the name of a property that an object inherits.)
\<close>

type_synonym groups = "(jsstring \<times> article list) list"

fun pushGroup :: "article \<Rightarrow> groups \<Rightarrow> groups" where
  "pushGroup a [] = [(date a, [a])]"
| "pushGroup a ((d, as) # g) =
     (if d = date a then (d, as @ [a]) # g else (d, as) # pushGroup a g)"

definition groupByDate :: "article list \<Rightarrow> groups" where
  "groupByDate articles = foldl (\<lambda>g a. pushGroup a g) [] articles"

definition groupOf :: "groups \<Rightarrow> jsstring \<Rightarrow> article list" where
  "groupOf g d = (case map_of g d of Some as \<Rightarrow> as | None \<Rightarrow> [])"

text \<open>
  \<^verbatim>\<open>Object.keys(groupedByDate).sort().reverse()\<close>: without a comparator, \<^verbatim>\<open>sort\<close> orders
  strings by their code units; the keys are distinct.
\<close>

definition sortedDates :: "groups \<Rightarrow> jsstring list" where
  "sortedDates g = rev (sort (map fst g))"

definition copyLabel :: jsstring where
  "copyLabel = [0x590D, 0x5236, 0x94FE, 0x63A5]"

definition articleItem :: "article \<Rightarrow> jsstring" where
  \<open>articleItem a =
     js ''\<newline>        <li class="article-item">\<newline>            <a href="/'' @ path a
     @ js ''" target="_blank" class="article-link">'' @ title a
     @ js ''</a>\<newline>            <button class="copy-btn" data-title="'' @ escapeHtml (title a)
     @ js ''" data-path="'' @ path a
     @ js ''">'' @ copyLabel @ js ''</button>\<newline>        </li>\<newline>''\<close>

definition dateHeader :: "jsstring \<Rightarrow> jsstring" where
  \<open>dateHeader d =
     js ''\<newline><div class="date-group">\<newline>    <div class="date-header">'' @ d
     @ js ''</div>\<newline>    <ul class="article-list">\<newline>''\<close>

definition dateFooter :: jsstring where
  \<open>dateFooter = js ''    </ul>\<newline></div>\<newline>''\<close>

definition dateGroup :: "groups \<Rightarrow> jsstring \<Rightarrow> jsstring" where
  "dateGroup g d = dateHeader d @ concat (map articleItem (groupOf g d)) @ dateFooter"

definition generateArticlesHtml :: "article list \<Rightarrow> jsstring" where
  "generateArticlesHtml articles =
     (let groupedByDate = groupByDate articles
      in concat (map (dateGroup groupedByDate) (sortedDates groupedByDate)))"

subsection \<open>The pagination fragment\<close>

definition prevLabel :: jsstring where
  "prevLabel = [0xAB, 0x20, 0x4E0A, 0x4E00, 0x9875]"

definition nextLabel :: jsstring where
  "nextLabel = [0x4E0B, 0x4E00, 0x9875, 0x20, 0xBB]"

definition pageIndicator :: "nat \<Rightarrow> nat \<Rightarrow> jsstring" where
  \<open>pageIndicator currentPage totalPages =
     js ''<span class="pagination-current">'' @ [0x7B2C, 0x20] @ numToString currentPage
     @ js '' / '' @ numToString totalPages @ [0x20, 0x9875] @ js ''</span>''\<close>

definition paginationLink :: "jsstring \<Rightarrow> jsstring \<Rightarrow> jsstring" where
  \<open>paginationLink target label =
     js ''<a href="'' @ target @ js ''" class="pagination-link">'' @ label @ js ''</a>''\<close>

definition generatePaginationHtml :: "nat \<Rightarrow> nat \<Rightarrow> jsstring" where
  \<open>generatePaginationHtml currentPage totalPages =
     (let html = js ''<div class="pagination">'';
          html = (if currentPage > 1
                  then let prevPagePath =
                             (if currentPage = 2 then js ''/''
                              else js ''/archives/'' @ numToString (currentPage - 1) @ js ''/'')
                       in html @ paginationLink prevPagePath prevLabel
                  else html);
          html = html @ pageIndicator currentPage totalPages;
          html = (if currentPage < totalPages
                  then let nextPagePath = js ''/archives/'' @ numToString (currentPage + 1) @ js ''/''
                       in html @ paginationLink nextPagePath nextLabel
                  else html)
      in html @ js ''</div>'')\<close>

section \<open>Template substitution\<close>

text \<open>
  \<^verbatim>\<open>s.replace(pattern, replacement)\<close> with a string pattern replaces the first occurrence
  only, and expands the replacement: \<^verbatim>\<open>$$\<close> gives \<^verbatim>\<open>$\<close>, \<^verbatim>\<open>$&\<close> the matched text,
  \<^verbatim>\<open>$`\<close> the text before the match and \<^verbatim>\<open>$'\<close> the text after it. A string pattern has
  no capture groups, so every other \<^verbatim>\<open>$\<close> stands for itself.
\<close>

fun findFirst :: "jsstring \<Rightarrow> jsstring \<Rightarrow> nat option" where
  "findFirst pat [] = (if pat = [] then Some 0 else None)"
| "findFirst pat (c # cs) =
     (if startsWith (c # cs) pat then Some 0 else map_option Suc (findFirst pat cs))"

fun getSubstitution :: "jsstring \<Rightarrow> jsstring \<Rightarrow> jsstring \<Rightarrow> jsstring \<Rightarrow> jsstring" where
  "getSubstitution matched preceding following [] = []"
| "getSubstitution matched preceding following [c] = [c]"
| "getSubstitution matched preceding following (c # c' # cs) =
     (if c = 0x24 \<and> c' = 0x24 then 0x24 # getSubstitution matched preceding following cs
      else if c = 0x24 \<and> c' = 0x26 then matched @ getSubstitution matched preceding following cs
      else if c = 0x24 \<and> c' = 0x60 then preceding @ getSubstitution matched preceding following cs
      else if c = 0x24 \<and> c' = 0x27 then following @ getSubstitution matched preceding following cs
      else c # getSubstitution matched preceding following (c' # cs))"

definition replaceFirst :: "jsstring \<Rightarrow> jsstring \<Rightarrow> jsstring \<Rightarrow> jsstring" where
  "replaceFirst pat replacement s =
     (case findFirst pat s of
        None \<Rightarrow> s
      | Some pos \<Rightarrow>
          (let preceding = take pos s; following = drop (pos + length pat) s
           in preceding @ getSubstitution pat preceding following replacement @ following))"

definition ARCHIVES_PLACEHOLDER :: jsstring where
  "ARCHIVES_PLACEHOLDER = js ''<!-- ARCHIVES_PLACEHOLDER -->''"

definition PAGINATION_PLACEHOLDER :: jsstring where
  "PAGINATION_PLACEHOLDER = js ''<!-- PAGINATION_PLACEHOLDER -->''"

definition YEAR_PLACEHOLDER :: jsstring where
  "YEAR_PLACEHOLDER = js ''<!-- YEAR_PLACEHOLDER -->''"

text \<open>The three \<^verbatim>\<open>replace\<close> calls of the page loop.\<close>

definition fillTemplate :: "jsstring \<Rightarrow> jsstring \<Rightarrow> jsstring \<Rightarrow> nat \<Rightarrow> jsstring" where
  "fillTemplate template articlesHtml paginationHtml currentYear =
     (let finalHtml = replaceFirst ARCHIVES_PLACEHOLDER articlesHtml template;
          finalHtml = replaceFirst PAGINATION_PLACEHOLDER paginationHtml finalHtml;
          finalHtml = replaceFirst YEAR_PLACEHOLDER (numToString currentYear) finalHtml
      in finalHtml)"

section \<open>The build\<close>

text \<open>
  \<^verbatim>\<open>.map(getArticleFromFilename).filter(Boolean).sort(...)\<close>: an article object is truthy
  and \<^verbatim>\<open>null\<close> is not. The comparator calls \<^verbatim>\<open>localeCompare\<close>, whose order is that of
  the host's collation; it is a parameter of the model.
\<close>

definition allArticlesOf :: "(jsstring \<Rightarrow> jsstring \<Rightarrow> int) \<Rightarrow> jsstring list \<Rightarrow> article list" where
  "allArticlesOf localeCompare allFiles =
     arraySort (\<lambda>a b. localeCompare (filename b) (filename a))
       (map the (filter (\<lambda>r. r \<noteq> None) (map getArticleFromFilename allFiles)))"

text \<open>\<^verbatim>\<open>Math.ceil(allArticles.length / POSTS_PER_PAGE)\<close>.\<close>

definition totalPagesOf :: "article list \<Rightarrow> nat" where
  "totalPagesOf allArticles = nat \<lceil>real (length allArticles) / real POSTS_PER_PAGE\<rceil>"

text \<open>The body of the page loop, up to the final HTML of page \<open>i\<close>.\<close>

definition pageArticlesOf :: "article list \<Rightarrow> nat \<Rightarrow> article list" where
  "pageArticlesOf allArticles i =
     (let startIndex = (i - 1) * POSTS_PER_PAGE;
          endIndex = startIndex + POSTS_PER_PAGE
      in slice allArticles startIndex endIndex)"

definition pageHtml :: "jsstring \<Rightarrow> nat \<Rightarrow> article list \<Rightarrow> nat \<Rightarrow> nat \<Rightarrow> jsstring" where
  "pageHtml template currentYear allArticles totalPages i =
     (let pageArticles = pageArticlesOf allArticles i;
          articlesHtml = generateArticlesHtml pageArticles;
          paginationHtml = generatePaginationHtml i totalPages
      in fillTemplate template articlesHtml paginationHtml currentYear)"

text \<open>
  The part of the file system the build touches. A directory is the list of its entries
  in the order \<^verbatim>\<open>readdirSync\<close> returns them, each with its content (of a file, or the
  subtree of a directory), which the build copies and never inspects. The output
  directory holds the copy of the pages, \<^verbatim>\<open>index.html\<close> and
  \<^verbatim>\<open>archives/<i>/index.html\<close>.
\<close>

type_synonym 'd dir = "(jsstring \<times> 'd) list"

record 'd site =
  sitePages :: "'d dir option"
  siteIndex :: "jsstring option"
  siteArchives :: "(nat \<times> jsstring) list"

record 'd filesystem =
  pagesDir :: "'d dir option"
  templateFile :: "jsstring option"
  siteDir :: "'d site option"

text \<open>
  The exceptions of the model: a missing pages directory (\<^verbatim>\<open>cpSync\<close> throws) and a
  missing template (\<^verbatim>\<open>readFileSync\<close> throws). Nothing catches them.
\<close>

datatype error = PagesDirMissing | TemplateMissing

datatype logline =
  LogCleaned | LogCopied | LogNoArticles | LogBuilt nat | LogTotal nat

record 'd outcome =
  thrown :: "error option"
  files :: "'d filesystem"
  console :: "logline list"

definition emptySite :: "'d site" where
  "emptySite = \<lparr> sitePages = None, siteIndex = None, siteArchives = [] \<rparr>"

text \<open>\<^verbatim>\<open>mkdirSync(pageOutputDir)\<close> and \<^verbatim>\<open>writeFileSync(.../index.html, finalHtml)\<close>.\<close>

definition writePage :: "nat \<Rightarrow> jsstring \<Rightarrow> 'd site \<Rightarrow> 'd site" where
  "writePage i finalHtml st =
     (if i = 1 then st\<lparr> siteIndex := Some finalHtml \<rparr>
      else st\<lparr> siteArchives := AList.update i finalHtml (siteArchives st) \<rparr>)"

function buildPages ::
  "jsstring \<Rightarrow> nat \<Rightarrow> article list \<Rightarrow> nat \<Rightarrow> nat \<Rightarrow> 'd site \<Rightarrow> logline list
     \<Rightarrow> 'd site \<times> logline list" where
  "buildPages template currentYear allArticles totalPages i st lg =
     (if i \<le> totalPages
      then buildPages template currentYear allArticles totalPages (i + 1)
             (writePage i (pageHtml template currentYear allArticles totalPages i) st)
             (lg @ [LogBuilt i])
      else (st, lg))"
  by pat_completeness auto
termination
  by (relation "measure (\<lambda>(template, currentYear, allArticles, totalPages, i, st, lg).
        Suc totalPages - i)") auto

declare buildPages.simps [simp del]

definition run :: "(jsstring \<Rightarrow> jsstring \<Rightarrow> int) \<Rightarrow> nat \<Rightarrow> 'd filesystem \<Rightarrow> 'd outcome" where
  "run localeCompare currentYear fs0 =
     (let fs1 = fs0\<lparr> siteDir := Some emptySite \<rparr>;
          lg1 = [LogCleaned]
      in case pagesDir fs1 of
           None \<Rightarrow> \<lparr> thrown = Some PagesDirMissing, files = fs1, console = lg1 \<rparr>
         | Some entries \<Rightarrow>
             (let st2 = emptySite\<lparr> sitePages := Some entries \<rparr>;
                  fs2 = fs1\<lparr> siteDir := Some st2 \<rparr>;
                  lg2 = lg1 @ [LogCopied];
                  allFiles = map fst entries;
                  allArticles = allArticlesOf localeCompare allFiles
              in if length allArticles = 0
                 then \<lparr> thrown = None, files = fs2, console = lg2 @ [LogNoArticles] \<rparr>
                 else
                   (let totalPages = totalPagesOf allArticles
                    in case templateFile fs2 of
                         None \<Rightarrow> \<lparr> thrown = Some TemplateMissing, files = fs2, console = lg2 \<rparr>
                       | Some template \<Rightarrow>
                           (case buildPages template currentYear allArticles totalPages 1 st2 lg2 of
                              (st3, lg3) \<Rightarrow>
                                \<lparr> thrown = None, files = fs2\<lparr> siteDir := Some st3 \<rparr>,
                                  console = lg3 @ [LogTotal totalPages] \<rparr>))))"

section \<open>Notions of the specification\<close>

text \<open>A date string \<^verbatim>\<open>YYYY-MM-DD\<close>: ten code units, digits around two hyphens.\<close>

definition spec_isDate :: "jsstring \<Rightarrow> bool" where
  "spec_isDate d \<longleftrightarrow>
     length d = 10 \<and> list_all isDigit (take 4 d) \<and> d ! 4 = 0x2D \<and>
     list_all isDigit (take 2 (drop 5 d)) \<and> d ! 7 = 0x2D \<and> list_all isDigit (drop 8 d)"

text \<open>A file name that starts with \<^verbatim>\<open>YYYY-MM-DD-\<close>.\<close>

definition spec_startsWithDate :: "jsstring \<Rightarrow> bool" where
  "spec_startsWithDate f \<longleftrightarrow> spec_isDate (take 10 f) \<and> take 1 (drop 10 f) = js ''-''"

text \<open>
  The pattern \<^verbatim>\<open>^\d{4}-\d{2}-\d{2}-.*\.html$\<close> of the specification, read as a regular
  expression of the language: the dot matches any code unit but a line terminator
  (line feed, carriage return, U+2028, U+2029). So a match is a date, a hyphen, a
  stretch without line terminators and \<^verbatim>\<open>.html\<close> at the very end.
\<close>

definition isLineTerminator :: "jschar \<Rightarrow> bool" where
  "isLineTerminator c \<longleftrightarrow> c = 0x0A \<or> c = 0x0D \<or> c = 0x2028 \<or> c = 0x2029"

definition spec_matchesArticleRe :: "jsstring \<Rightarrow> bool" where
  "spec_matchesArticleRe f \<longleftrightarrow>
     16 \<le> length f \<and> spec_startsWithDate f \<and> endsWith f (js ''.html'') \<and>
     list_all (\<lambda>c. \<not> isLineTerminator c) (take (length f - 16) (drop 11 f))"

text \<open>
  Replacing every double quote by \<^verbatim>\<open>&quot;\<close> and leaving every other code unit as it
  is, character by character.
\<close>

definition spec_escapeQuotes :: "jsstring \<Rightarrow> jsstring" where
  \<open>spec_escapeQuotes t = concat (map (\<lambda>c. if c = 0x22 then js ''&quot;'' else [c]) t)\<close>

text \<open>A list of articles in descending order of file name, the strings compared by code units.\<close>

definition spec_sortedDescLex :: "article list \<Rightarrow> bool" where
  "spec_sortedDescLex as \<longleftrightarrow> sorted_wrt (\<lambda>a b. filename b \<le> filename a) as"

text \<open>
  What the language asks of a comparator such as \<^verbatim>\<open>localeCompare\<close>: it orders any two
  strings, one way or the other, and transitively.
\<close>

definition consistentComparator :: "(jsstring \<Rightarrow> jsstring \<Rightarrow> int) \<Rightarrow> bool" where
  "consistentComparator lc \<longleftrightarrow>
     (\<forall>x y. 0 < lc x y \<longrightarrow> lc y x \<le> 0) \<and>
     (\<forall>x y z. lc x y \<le> 0 \<longrightarrow> lc y z \<le> 0 \<longrightarrow> lc x z \<le> 0)"

text \<open>
  An instance of the comparator, for the examples: the collation that Node's
  \<^verbatim>\<open>localeCompare\<close> applies in its default locale, on file names of ASCII letters,
  digits, hyphens and full stops. The names are compared letter by letter without
  regard to case; names that differ in case only are then ordered with a lower-case
  letter before its capital.
\<close>

definition isUpperAscii :: "jschar \<Rightarrow> bool" where
  "isUpperAscii c \<longleftrightarrow> 0x41 \<le> c \<and> c \<le> 0x5A"

definition toLowerAscii :: "jschar \<Rightarrow> jschar" where
  "toLowerAscii c = (if isUpperAscii c then c + 0x20 else c)"

definition collationKey :: "jsstring \<Rightarrow> jsstring \<times> bool list" where
  "collationKey s = (map toLowerAscii s, map isUpperAscii s)"

definition localeCompareRoot :: "jsstring \<Rightarrow> jsstring \<Rightarrow> int" where
  "localeCompareRoot x y =
     (if collationKey x < collationKey y then - 1
      else if collationKey x = collationKey y then 0 else 1)"

text \<open>
  The previous and the next link of page \<open>currentPage\<close> of \<open>totalPages\<close>, as the
  specification gives them, and the first occurrence of a token replaced by a text
  taken literally.
\<close>

definition spec_prevLink :: "nat \<Rightarrow> jsstring" where
  "spec_prevLink currentPage =
     (if currentPage = 1 then []
      else paginationLink
             (if currentPage = 2 then js ''/''
              else js ''/archives/'' @ numToString (currentPage - 1) @ js ''/'') prevLabel)"

definition spec_nextLink :: "nat \<Rightarrow> nat \<Rightarrow> jsstring" where
  "spec_nextLink currentPage totalPages =
     (if currentPage = totalPages then []
      else paginationLink (js ''/archives/'' @ numToString (currentPage + 1) @ js ''/'') nextLabel)"

definition spec_replaceLiteral :: "jsstring \<Rightarrow> jsstring \<Rightarrow> jsstring \<Rightarrow> jsstring" where
  "spec_replaceLiteral token text s =
     (case findFirst token s of
        None \<Rightarrow> s
      | Some pos \<Rightarrow> take pos s @ text @ drop (pos + length token) s)"

definition spec_fillTemplate :: "jsstring \<Rightarrow> jsstring \<Rightarrow> jsstring \<Rightarrow> nat \<Rightarrow> jsstring" where
  "spec_fillTemplate template articlesHtml paginationHtml currentYear =
     spec_replaceLiteral YEAR_PLACEHOLDER (numToString currentYear)
       (spec_replaceLiteral PAGINATION_PLACEHOLDER paginationHtml
         (spec_replaceLiteral ARCHIVES_PLACEHOLDER articlesHtml template))"

text \<open>A template with each placeholder once, for the examples.\<close>

definition exampleTemplate :: jsstring where
  "exampleTemplate =
     js ''<main><!-- ARCHIVES_PLACEHOLDER --></main><nav><!-- PAGINATION_PLACEHOLDER --></nav><footer><!-- YEAR_PLACEHOLDER --></footer>''"

section \<open>Properties of the string operations\<close>

lemma js_Nil: "js [] = []"
  by (simp add: js_def)

lemma js_Cons: "js (c # cs) = of_nat (of_char c) # js cs"
  by (simp add: js_def)

lemmas js_simps = js_Nil js_Cons

lemma length_js [simp]: "length (js s) = length s"
  by (simp add: js_def)

lemma endsWith_append [simp]: "endsWith (s @ p) p"
  by (simp add: endsWith_def)

lemma endsWithE:
  assumes "endsWith s p"
  obtains r where "s = r @ p"
  using assms by (metis append_take_drop_id endsWith_def)

lemma startsWith_prefix: "startsWith s p \<longleftrightarrow> prefix p s"
  by (metis append_eq_conv_conj prefix_def startsWith_def)

lemma replaceGlobal_absent:
  "\<not> sublist lit s \<Longrightarrow> replaceGlobal lit rep s = s"
proof (induction lit rep s rule: replaceGlobal.induct)
  case (1 lit rep)
  then show ?case by simp
next
  case (2 lit rep c cs)
  have "\<not> startsWith (c # cs) lit"
    using 2(3) by (auto simp: startsWith_prefix dest: prefix_imp_sublist)
  moreover have "\<not> sublist lit cs"
    using 2(3) by (meson sublist_Cons_right)
  ultimately show ?case using 2 by simp
qed

text \<open>
  With \<open>replaceGlobal_absent\<close>, the next two lemmas say what the global replacement
  does: up to and including the leftmost occurrence of the pattern the text is kept and
  the occurrence replaced, and the rest is treated in the same way.
\<close>

lemma replaceGlobal_match:
  assumes "lit \<noteq> []"
  shows "replaceGlobal lit rep (lit @ v) = rep @ replaceGlobal lit rep v"
proof -
  from assms obtain c ls where lit: "lit = c # ls" by (cases lit) auto
  have "startsWith (c # ls @ v) lit"
    by (simp add: startsWith_prefix lit)
  then show ?thesis
    by (simp add: lit)
qed

lemma replaceGlobal_first:
  assumes "lit \<noteq> []" and "\<not> sublist lit (u @ butlast lit)"
  shows "replaceGlobal lit rep (u @ lit @ v) = u @ rep @ replaceGlobal lit rep v"
  using assms(2)
proof (induction u)
  case Nil
  from assms(1) show ?case by (simp add: replaceGlobal_match)
next
  case (Cons x u)
  have "\<not> startsWith (x # u @ lit @ v) lit"
  proof
    assume "startsWith (x # u @ lit @ v) lit"
    moreover have "lit @ v = butlast lit @ last lit # v"
      using assms(1) by (metis append.assoc append_Cons append_Nil append_butlast_last_id)
    ultimately have "prefix lit ((x # u @ butlast lit) @ last lit # v)"
      by (simp add: startsWith_prefix)
    moreover have "prefix (x # u @ butlast lit) ((x # u @ butlast lit) @ last lit # v)"
      by (rule prefixI) simp
    moreover have "length lit \<le> length (x # u @ butlast lit)"
      by simp
    ultimately have "prefix lit (x # u @ butlast lit)"
      by (rule prefix_length_prefix)
    then have "sublist lit ((x # u) @ butlast lit)"
      by (simp add: prefix_imp_sublist)
    with Cons.prems show False by simp
  qed
  moreover have "\<not> sublist lit (u @ butlast lit)"
    using Cons.prems by (auto dest: sublist_Cons_right [THEN iffD2, OF disjI2])
  ultimately show ?case
    using Cons.IH by simp
qed

section \<open>Properties of the file name parser\<close>

lemma length10E:
  assumes "length (d :: 'a list) = 10"
  obtains a0 a1 a2 a3 a4 a5 a6 a7 a8 a9 where "d = [a0, a1, a2, a3, a4, a5, a6, a7, a8, a9]"
proof -
  from assms have "length d = Suc (Suc (Suc (Suc (Suc (Suc (Suc (Suc (Suc (Suc 0)))))))))"
    by simp
  then show ?thesis
    by (auto simp: length_Suc_conv intro: that)
qed

lemma spec_isDateE:
  assumes "spec_isDate d"
  obtains y1 y2 y3 y4 m1 m2 d1 d2 where
    "d = [y1, y2, y3, y4, 0x2D, m1, m2, 0x2D, d1, d2]"
    "isDigit y1" "isDigit y2" "isDigit y3" "isDigit y4"
    "isDigit m1" "isDigit m2" "isDigit d1" "isDigit d2"
proof -
  from assms have "length d = 10" by (simp add: spec_isDate_def)
  then obtain a0 a1 a2 a3 a4 a5 a6 a7 a8 a9 where d: "d = [a0, a1, a2, a3, a4, a5, a6, a7, a8, a9]"
    by (rule length10E)
  from assms have "a4 = 0x2D" "a7 = 0x2D" "isDigit a0" "isDigit a1" "isDigit a2" "isDigit a3"
    "isDigit a5" "isDigit a6" "isDigit a8" "isDigit a9"
    by (simp_all add: spec_isDate_def d)
  with d show ?thesis
    by (intro that [of a0 a1 a2 a3 a5 a6 a8 a9]) simp_all
qed

lemma matchAnchored_length: "matchAnchored as s \<Longrightarrow> length as \<le> length s"
  by (induction as s rule: matchAnchored.induct) auto

lemma matchAnchored_datePrefix:
  "matchAnchored datePrefixRe f \<longleftrightarrow> spec_startsWithDate f"
proof
  assume m: "matchAnchored datePrefixRe f"
  then have "11 \<le> length f"
    using matchAnchored_length [of datePrefixRe f] by (simp add: datePrefixRe_def)
  then obtain d r where f: "f = d @ r" and ld: "length d = 10" and "r \<noteq> []"
    by (intro that [of "take 10 f" "drop 10 f"]) auto
  then obtain c r' where r: "r = c # r'" by (cases r) auto
  from ld obtain a0 a1 a2 a3 a4 a5 a6 a7 a8 a9 where d: "d = [a0, a1, a2, a3, a4, a5, a6, a7, a8, a9]"
    by (rule length10E)
  show "spec_startsWithDate f"
    using m by (simp add: f d r datePrefixRe_def spec_startsWithDate_def spec_isDate_def js_simps)
next
  assume s: "spec_startsWithDate f"
  then obtain y1 y2 y3 y4 m1 m2 d1 d2 where
    t: "take 10 f = [y1, y2, y3, y4, 0x2D, m1, m2, 0x2D, d1, d2]"
    and dg: "isDigit y1" "isDigit y2" "isDigit y3" "isDigit y4"
      "isDigit m1" "isDigit m2" "isDigit d1" "isDigit d2"
    unfolding spec_startsWithDate_def by (elim conjE spec_isDateE) blast
  from s have h: "take 1 (drop 10 f) = [0x2D]"
    by (simp add: spec_startsWithDate_def js_simps)
  have "take 1 (drop 10 f) @ drop 1 (drop 10 f) = drop 10 f"
    by (rule append_take_drop_id)
  then have "f = take 10 f @ take 1 (drop 10 f) @ drop 11 f"
    by simp
  then obtain r where "f = [y1, y2, y3, y4, 0x2D, m1, m2, 0x2D, d1, d2] @ [0x2D] @ r"
    using t h by metis
  then show "matchAnchored datePrefixRe f"
    using dg by (simp add: datePrefixRe_def)
qed


lemma getArticleFromFilename_None_iff:
  "getArticleFromFilename f = None \<longleftrightarrow>
     f = js ''index.html'' \<or> \<not> endsWith f (js ''.html'') \<or> \<not> spec_startsWithDate f"
  by (simp add: getArticleFromFilename_def dateMatch_def matchAnchored_datePrefix)

lemma getArticleFromFilename_SomeD:
  assumes "getArticleFromFilename f = Some a"
  shows "filename a = f" "path a = js ''pages/'' @ f" "date a = take 10 f"
    "spec_isDate (date a)"
  using assms
  by (auto simp: getArticleFromFilename_def dateMatch_def matchAnchored_datePrefix
      spec_startsWithDate_def split: if_splits)

lemma parse_date_file:
  fixes d rest :: jsstring
  assumes d: "spec_isDate d" and eq: "file = d @ js ''-'' @ rest @ js ''.html''"
  shows "getArticleFromFilename file =
           Some \<lparr> title = decodeTitle rest, date = d, path = js ''pages/'' @ file,
                   filename = file \<rparr>"
proof -
  from d obtain y1 y2 y3 y4 m1 m2 d1 d2 where
    dd: "d = [y1, y2, y3, y4, 0x2D, m1, m2, 0x2D, d1, d2]" and dg: "isDigit y1"
    by (rule spec_isDateE)
  have t: "take 10 file = d" "drop 11 file = rest @ js ''.html''"
    by (simp_all add: eq dd js_simps)
  have "take 1 (drop 10 file) = js ''-''"
    by (simp add: eq dd js_simps)
  with d t have m: "matchAnchored datePrefixRe file"
    by (simp add: matchAnchored_datePrefix spec_startsWithDate_def)
  have ne: "file \<noteq> js ''index.html''"
    using dg by (auto simp: eq dd isDigit_def js_simps)
  have e: "endsWith file (js ''.html'')"
    unfolding eq by (metis append.assoc endsWith_append)
  have "length datePrefixRe = 11"
    by (simp add: datePrefixRe_def)
  with m t have s1: "stripDatePrefix file = rest @ js ''.html''"
    by (simp add: stripDatePrefix_def)
  have s2: "stripHtmlSuffix (rest @ js ''.html'') = rest"
    by (simp add: stripHtmlSuffix_def)
  show ?thesis
    using m ne e by (simp add: getArticleFromFilename_def dateMatch_def t s1 s2)
qed

lemmas parse_eval =
  getArticleFromFilename_def endsWith_def startsWith_def dateMatch_def datePrefixRe_def
  isDigit_def stripDatePrefix_def stripHtmlSuffix_def decodeTitle_def emDash_def
  fullwidthColon_def js_simps

text \<open>
  Claim C1. A file name \<^verbatim>\<open>YYYY-MM-DD-<rest>.html\<close> is parsed into an article whose date is
  the ten-character prefix and whose title is \<open>rest\<close> after the three replacements, in
  this order: every \<^verbatim>\<open>%20\<close> by a space, every \<^verbatim>\<open>%E2%80%94\<close> by the em dash, every
  \<^verbatim>\<open>%EF%BC%9A\<close> by the fullwidth colon (\<open>replaceGlobal\<close>, characterised above). Nothing
  else is decoded: a \<open>rest\<close> in which none of the three occurs is the title as it stands.
\<close>

theorem getArticleFromFilename_decodes:
  fixes d rest :: jsstring
  assumes "spec_isDate d" and "file = d @ js ''-'' @ rest @ js ''.html''"
  shows "getArticleFromFilename file =
           Some \<lparr> title = replaceGlobal (js ''%EF%BC%9A'') fullwidthColon
                             (replaceGlobal (js ''%E2%80%94'') emDash
                               (replaceGlobal (js ''%20'') (js '' '') rest)),
                   date = d, path = js ''pages/'' @ file, filename = file \<rparr>
         \<and> (\<not> sublist (js ''%20'') rest \<and> \<not> sublist (js ''%E2%80%94'') rest
              \<and> \<not> sublist (js ''%EF%BC%9A'') rest
            \<longrightarrow> map_option title (getArticleFromFilename file) = Some rest)"
  using parse_date_file [OF assms]
  by (simp add: decodeTitle_def replaceGlobal_absent)

text \<open>
  The two file names of the specification, and one whose percent-encoded sequences are
  not among the three.
\<close>

theorem getArticleFromFilename_decodes_witness:
  "spec_isDate (js ''2024-03-05'')
   \<and> getArticleFromFilename (js ''2024-03-05-Hello%20World.html'') =
       Some \<lparr> title = js ''Hello World'', date = js ''2024-03-05'',
               path = js ''pages/2024-03-05-Hello%20World.html'',
               filename = js ''2024-03-05-Hello%20World.html'' \<rparr>
   \<and> map_option title (getArticleFromFilename (js ''2024-03-05-Caf%E2%80%94Talk.html'')) =
       Some (js ''Caf'' @ emDash @ js ''Talk'')
   \<and> \<not> sublist (js ''%20'') (js ''50%25%2Foff'')
   \<and> map_option title (getArticleFromFilename (js ''2024-03-05-50%25%2Foff.html'')) =
       Some (js ''50%25%2Foff'')"
proof -
  have d: "spec_isDate (js ''2024-03-05'')"
    by (simp add: spec_isDate_def isDigit_def js_simps)
  have 1: "js ''2024-03-05-Hello%20World.html'' = js ''2024-03-05'' @ js ''-'' @ js ''Hello%20World'' @ js ''.html''"
    and 2: "js ''2024-03-05-Caf%E2%80%94Talk.html'' = js ''2024-03-05'' @ js ''-'' @ js ''Caf%E2%80%94Talk'' @ js ''.html''"
    and 3: "js ''2024-03-05-50%25%2Foff.html'' = js ''2024-03-05'' @ js ''-'' @ js ''50%25%2Foff'' @ js ''.html''"
    by (simp_all add: js_def)
  have n: "\<not> sublist (js ''%20'') (js ''50%25%2Foff'')"
    "\<not> sublist (js ''%E2%80%94'') (js ''50%25%2Foff'')"
    "\<not> sublist (js ''%EF%BC%9A'') (js ''50%25%2Foff'')"
    by (simp_all add: js_simps sublist_Cons_right)
  show ?thesis
    using getArticleFromFilename_decodes [OF d 1] getArticleFromFilename_decodes [OF d 2]
      getArticleFromFilename_decodes [OF d 3] d n
    by (simp add: startsWith_def emDash_def fullwidthColon_def js_simps)
qed

section \<open>Properties of the sort and of the article set\<close>

lemma set_insertSorted [simp]: "set (insertSorted cmp x xs) = insert x (set xs)"
  by (induction xs) auto

lemma set_arraySort [simp]: "set (arraySort cmp xs) = set xs"
  by (induction xs) auto

lemma mset_insertSorted [simp]: "mset (insertSorted cmp x xs) = add_mset x (mset xs)"
  by (induction xs) auto

lemma mset_arraySort [simp]: "mset (arraySort cmp xs) = mset xs"
  by (induction xs) auto

lemma set_allArticlesOf:
  "set (allArticlesOf lc allFiles) = {a. \<exists>f \<in> set allFiles. getArticleFromFilename f = Some a}"
  by (auto simp: allArticlesOf_def image_iff) force

lemma allArticlesOf_filename:
  assumes "a \<in> set (allArticlesOf lc allFiles)"
  shows "getArticleFromFilename (filename a) = Some a" "filename a \<in> set allFiles"
  using assms by (auto simp: set_allArticlesOf getArticleFromFilename_SomeD(1))

lemma endsWith_nth:
  assumes "endsWith s p" and "length s - length p \<le> i" and "i < length s"
  shows "s ! i \<in> set p"
proof -
  from assms(1) obtain r where s: "s = r @ p" by (rule endsWithE)
  with assms(2,3) have "s ! i = p ! (i - length r)" "i - length r < length p"
    by (auto simp: nth_append)
  then show ?thesis by simp
qed

lemma date_html_length:
  assumes "spec_startsWithDate f" and "endsWith f (js ''.html'')"
  shows "16 \<le> length f"
proof (rule ccontr)
  assume "\<not> 16 \<le> length f"
  moreover from assms(1) have h: "take 1 (drop 10 f) = js ''-''"
    by (simp add: spec_startsWithDate_def)
  then have "drop 10 f \<noteq> []"
    by (auto simp: js_simps)
  then have l: "10 < length f"
    by simp
  ultimately have "f ! 10 \<in> set (js ''.html'')"
    using assms(2) by (intro endsWith_nth) auto
  moreover from h l have "f ! 10 = 0x2D"
    by (simp add: js_simps take_Suc_conv_app_nth [of 0 "drop 10 f", simplified])
  ultimately show False by (simp add: js_simps)
qed

text \<open>
  Claim C6, amended. A file name that is \<^verbatim>\<open>index.html\<close>, or does not end in \<^verbatim>\<open>.html\<close>, or
  does not start with \<^verbatim>\<open>YYYY-MM-DD-\<close>, parses to \<^verbatim>\<open>null\<close> and is the file name of no
  article of the build. Among the file names without a line terminator, these are
  exactly the ones that do not match \<^verbatim>\<open>^\d{4}-\d{2}-\d{2}-.*\.html$\<close>.
\<close>

theorem getArticleFromFilename_rejects:
  "(f = js ''index.html'' \<or> \<not> endsWith f (js ''.html'') \<or> \<not> spec_startsWithDate f
      \<longrightarrow> getArticleFromFilename f = None \<and> f \<notin> filename ` set (allArticlesOf lc allFiles))
   \<and> (list_all (\<lambda>c. \<not> isLineTerminator c) f
      \<longrightarrow> (\<not> spec_matchesArticleRe f \<longleftrightarrow>
             f = js ''index.html'' \<or> \<not> endsWith f (js ''.html'') \<or> \<not> spec_startsWithDate f))"
proof (intro conjI impI)
  assume "f = js ''index.html'' \<or> \<not> endsWith f (js ''.html'') \<or> \<not> spec_startsWithDate f"
  then show n: "getArticleFromFilename f = None"
    by (simp add: getArticleFromFilename_None_iff)
  show "f \<notin> filename ` set (allArticlesOf lc allFiles)"
    using n allArticlesOf_filename(1) by fastforce
next
  assume a: "list_all (\<lambda>c. \<not> isLineTerminator c) f"
  have "list_all (\<lambda>c. \<not> isLineTerminator c) (take (length f - 16) (drop 11 f))"
    using a by (auto simp: list_all_iff dest!: in_set_takeD in_set_dropD)
  moreover have "\<not> spec_startsWithDate (js ''index.html'')"
    by (simp add: spec_startsWithDate_def js_simps)
  ultimately show "\<not> spec_matchesArticleRe f \<longleftrightarrow>
      f = js ''index.html'' \<or> \<not> endsWith f (js ''.html'') \<or> \<not> spec_startsWithDate f"
    using date_html_length [of f] by (auto simp: spec_matchesArticleRe_def)
qed

theorem getArticleFromFilename_rejects_witness:
  "\<not> endsWith (js ''notes.txt'') (js ''.html'')
   \<and> getArticleFromFilename (js ''notes.txt'') = None
   \<and> getArticleFromFilename (js ''index.html'') = None
   \<and> \<not> spec_startsWithDate (js ''24-3-5-Hello.html'')
   \<and> getArticleFromFilename (js ''24-3-5-Hello.html'') = None
   \<and> list_all (\<lambda>c. \<not> isLineTerminator c) (js ''24-3-5-Hello.html'')
   \<and> \<not> spec_matchesArticleRe (js ''24-3-5-Hello.html'')"
proof -
  have 1: "\<not> endsWith (js ''notes.txt'') (js ''.html'')"
    by (simp add: endsWith_def js_simps)
  have 2: "\<not> spec_startsWithDate (js ''24-3-5-Hello.html'')"
    by (simp add: spec_startsWithDate_def spec_isDate_def isDigit_def js_simps)
  have 3: "list_all (\<lambda>c. \<not> isLineTerminator c) (js ''24-3-5-Hello.html'')"
    by (simp add: isLineTerminator_def js_simps)
  show ?thesis
    using getArticleFromFilename_rejects [of "js ''notes.txt''" "\<lambda>x y. 0" "[]"]
      getArticleFromFilename_rejects [of "js ''index.html''" "\<lambda>x y. 0" "[]"]
      getArticleFromFilename_rejects [of "js ''24-3-5-Hello.html''" "\<lambda>x y. 0" "[]"] 1 2 3
    by simp
qed

text \<open>
  Claim C6 as stated fails where the pattern and the parser part: a line feed after the
  date prefix. The dot of the pattern does not match it, so the name does not match; the
  parser tests the prefix and the suffix only, and returns an article.
\<close>

theorem getArticleFromFilename_line_feed_counterexample:
  "\<not> spec_matchesArticleRe (js ''2024-01-01-a\<newline>b.html'')
   \<and> getArticleFromFilename (js ''2024-01-01-a\<newline>b.html'') \<noteq> None"
  by (simp add: spec_matchesArticleRe_def isLineTerminator_def parse_eval)

lemma sorted_insertSorted:
  assumes tot: "\<And>x y. 0 < cmp x y \<Longrightarrow> cmp y x \<le> 0"
    and trans: "\<And>x y z. cmp x y \<le> 0 \<Longrightarrow> cmp y z \<le> 0 \<Longrightarrow> cmp x z \<le> 0"
    and "sorted_wrt (\<lambda>a b. cmp a b \<le> 0) ys"
  shows "sorted_wrt (\<lambda>a b. cmp a b \<le> 0) (insertSorted cmp x ys)"
  using assms(3)
proof (induction ys)
  case Nil
  then show ?case by simp
next
  case (Cons y ys)
  show ?case
  proof (cases "cmp x y \<le> 0")
    case True
    with Cons.prems show ?thesis by (auto intro: trans)
  next
    case False
    then have "cmp y x \<le> 0" by (intro tot) simp
    with False Cons show ?thesis by auto
  qed
qed

lemma sorted_arraySort:
  assumes "\<And>x y. 0 < cmp x y \<Longrightarrow> cmp y x \<le> 0"
    and "\<And>x y z. cmp x y \<le> 0 \<Longrightarrow> cmp y z \<le> 0 \<Longrightarrow> cmp x z \<le> 0"
  shows "sorted_wrt (\<lambda>a b. cmp a b \<le> 0) (arraySort cmp xs)"
  by (induction xs) (simp_all add: sorted_insertSorted assms)

lemma sorted_allArticlesOf:
  assumes "consistentComparator lc"
  shows "sorted_wrt (\<lambda>a b. lc (filename b) (filename a) \<le> 0) (allArticlesOf lc allFiles)"
  unfolding allArticlesOf_def
proof (rule sorted_arraySort)
  fix x y :: article
  assume "0 < lc (filename y) (filename x)"
  with assms show "lc (filename x) (filename y) \<le> 0"
    by (simp add: consistentComparator_def)
next
  fix x y z :: article
  assume "lc (filename y) (filename x) \<le> 0" "lc (filename z) (filename y) \<le> 0"
  with assms show "lc (filename z) (filename x) \<le> 0"
    unfolding consistentComparator_def by blast
qed

lemma consistent_localeCompareRoot: "consistentComparator localeCompareRoot"
  by (auto simp: consistentComparator_def localeCompareRoot_def split: if_splits)

section \<open>Properties of the grouping by date\<close>

lemma keys_pushGroup: "fst ` set (pushGroup a g) = insert (date a) (fst ` set g)"
  by (induction g) force+

lemma distinct_pushGroup:
  "distinct (map fst g) \<Longrightarrow> distinct (map fst (pushGroup a g))"
proof (induction g)
  case Nil
  then show ?case by simp
next
  case (Cons p g)
  obtain d as where p: "p = (d, as)" by (cases p)
  show ?case
  proof (cases "d = date a")
    case True
    with Cons.prems show ?thesis by (simp add: p)
  next
    case False
    have "d \<notin> fst ` set (pushGroup a g)"
      using Cons.prems False by (simp add: keys_pushGroup p)
    with Cons False show ?thesis by (simp add: p)
  qed
qed

lemma groupOf_pushGroup:
  "groupOf (pushGroup a g) d = (if d = date a then groupOf g d @ [a] else groupOf g d)"
  by (induction g) (auto simp: groupOf_def)

lemma fst_foldl_pushGroup:
  "distinct (map fst g) \<Longrightarrow>
     distinct (map fst (foldl (\<lambda>g a. pushGroup a g) g as)) \<and>
     fst ` set (foldl (\<lambda>g a. pushGroup a g) g as) = fst ` set g \<union> date ` set as"
proof (induction as arbitrary: g)
  case Nil
  then show ?case by simp
next
  case (Cons a as)
  have "distinct (map fst (pushGroup a g))"
    using Cons.prems by (rule distinct_pushGroup)
  from Cons.IH [OF this] show ?case
    by (simp add: keys_pushGroup)
qed

lemma groupOf_foldl_pushGroup:
  "groupOf (foldl (\<lambda>g a. pushGroup a g) g as) d = groupOf g d @ filter (\<lambda>a. date a = d) as"
  by (induction as arbitrary: g) (auto simp: groupOf_pushGroup)

lemma groupOf_groupByDate: "groupOf (groupByDate as) d = filter (\<lambda>a. date a = d) as"
  unfolding groupByDate_def groupOf_foldl_pushGroup by (simp add: groupOf_def)

lemma keys_groupByDate:
  "distinct (map fst (groupByDate as))" "set (map fst (groupByDate as)) = date ` set as"
  using fst_foldl_pushGroup [of "[]" as] by (simp_all add: groupByDate_def)

lemma dateGroup_groupByDate:
  "dateGroup (groupByDate as) =
     (\<lambda>d. dateHeader d @ concat (map articleItem (filter (\<lambda>a. date a = d) as)) @ dateFooter)"
  by (rule ext) (simp add: dateGroup_def groupOf_groupByDate)

lemma sortedDates_groupByDate:
  "sortedDates (groupByDate as) = rev (sorted_list_of_set (date ` set as))"
proof -
  let ?ks = "map fst (groupByDate as)"
  have "sorted_list_of_set (set ?ks) = sort (remdups ?ks)"
    by (rule sorted_list_of_set_sort_remdups)
  also have "remdups ?ks = ?ks"
    using keys_groupByDate(1) by (rule distinct_remdups_id)
  finally have "sort ?ks = sorted_list_of_set (date ` set as)"
    unfolding keys_groupByDate(2) by simp
  then show ?thesis
    by (simp add: sortedDates_def)
qed

lemma sortedDates_desc:
  "sorted_wrt (\<lambda>d e. e < d) (sortedDates (groupByDate as))"
  "set (sortedDates (groupByDate as)) = date ` set as"
  by (simp_all add: sortedDates_groupByDate sorted_wrt_rev)

lemma generateArticlesHtml_groups:
  "generateArticlesHtml as =
     concat (map (\<lambda>d. dateHeader d @ concat (map articleItem (filter (\<lambda>a. date a = d) as))
                        @ dateFooter)
                 (sortedDates (groupByDate as)))"
  by (simp add: generateArticlesHtml_def Let_def dateGroup_groupByDate)

section \<open>Sorting and grouping\<close>

lemmas sort_eval =
  allArticlesOf_def localeCompareRoot_def collationKey_def toLowerAscii_def isUpperAscii_def
  parse_eval

text \<open>
  Claim C2, amended. Before pagination the articles are the parsed ones, reordered into
  descending order of file name under the collation of \<^verbatim>\<open>localeCompare\<close> (whatever
  consistent order the host gives it), not under the comparison of code units. The
  fragment of a list of articles is, for each of its dates in descending order of the
  date strings (compared by code units), the header of the date, the entries of the
  articles of that date in the order of the list, and the footer.
\<close>

theorem articles_sorted_and_grouped:
  assumes "consistentComparator lc"
  shows "sorted_wrt (\<lambda>a b. lc (filename b) (filename a) \<le> 0) (allArticlesOf lc allFiles)
    \<and> mset (allArticlesOf lc allFiles) =
        mset (map the (filter (\<lambda>r. r \<noteq> None) (map getArticleFromFilename allFiles)))
    \<and> generateArticlesHtml pageArticles =
        concat (map (\<lambda>d. dateHeader d
                          @ concat (map articleItem (filter (\<lambda>a. date a = d) pageArticles))
                          @ dateFooter)
                    (sortedDates (groupByDate pageArticles)))
    \<and> sorted_wrt (\<lambda>d e. e < d) (sortedDates (groupByDate pageArticles))
    \<and> set (sortedDates (groupByDate pageArticles)) = date ` set pageArticles"
  using sorted_allArticlesOf [OF assms] generateArticlesHtml_groups sortedDates_desc
  by (simp add: allArticlesOf_def)

text \<open>
  Three file names of two dates: the newer date comes first, and within the older one
  \<^verbatim>\<open>C\<close> comes before \<^verbatim>\<open>b\<close>, as the collation has it.
\<close>

theorem articles_sorted_and_grouped_witness:
  "consistentComparator localeCompareRoot
   \<and> map filename (allArticlesOf localeCompareRoot
         [js ''2024-03-05-b.html'', js ''2024-03-06-a.html'', js ''2024-03-05-C.html'']) =
       [js ''2024-03-06-a.html'', js ''2024-03-05-C.html'', js ''2024-03-05-b.html'']
   \<and> sorted_wrt (\<lambda>a b. localeCompareRoot (filename b) (filename a) \<le> 0)
         (allArticlesOf localeCompareRoot
           [js ''2024-03-05-b.html'', js ''2024-03-06-a.html'', js ''2024-03-05-C.html''])
   \<and> sortedDates (groupByDate (allArticlesOf localeCompareRoot
         [js ''2024-03-05-b.html'', js ''2024-03-06-a.html'', js ''2024-03-05-C.html''])) =
       [js ''2024-03-06'', js ''2024-03-05'']"
proof -
  let ?fs = "[js ''2024-03-05-b.html'', js ''2024-03-06-a.html'', js ''2024-03-05-C.html'']"
  have 1: "consistentComparator localeCompareRoot"
    by (rule consistent_localeCompareRoot)
  have 2: "map filename (allArticlesOf localeCompareRoot ?fs) =
      [js ''2024-03-06-a.html'', js ''2024-03-05-C.html'', js ''2024-03-05-b.html'']"
    by (simp add: sort_eval)
  have 3: "sortedDates (groupByDate (allArticlesOf localeCompareRoot ?fs)) =
      [js ''2024-03-06'', js ''2024-03-05'']"
    by (simp add: sort_eval sortedDates_def groupByDate_def)
  from articles_sorted_and_grouped [OF 1, of ?fs "[]"]
  have 4: "sorted_wrt (\<lambda>a b. localeCompareRoot (filename b) (filename a) \<le> 0)
      (allArticlesOf localeCompareRoot ?fs)"
    by (rule conjunct1)
  from 1 2 4 3 show ?thesis by (intro conjI)
qed

text \<open>
  Claim C2 as stated fails on two file names of one date that differ in case: the
  collation puts \<^verbatim>\<open>a\<close> before \<^verbatim>\<open>B\<close>, so the descending list starts with \<^verbatim>\<open>B\<close>, while by
  code units \<^verbatim>\<open>B\<close> is the smaller one.
\<close>

theorem articles_not_sorted_by_code_units_counterexample:
  "map filename (allArticlesOf localeCompareRoot
       [js ''2024-01-01-a.html'', js ''2024-01-01-B.html'']) =
     [js ''2024-01-01-B.html'', js ''2024-01-01-a.html'']
   \<and> \<not> spec_sortedDescLex (allArticlesOf localeCompareRoot
       [js ''2024-01-01-a.html'', js ''2024-01-01-B.html''])"
  by (simp add: sort_eval spec_sortedDescLex_def)

section \<open>Pagination\<close>

lemma ceil_div10: "nat \<lceil>real n / 10\<rceil> = (n + 9) div 10"
proof -
  let ?k = "(n + 9) div 10"
  have "n \<le> 10 * ?k" "10 * ?k < n + 10" by presburger+
  then have "real n \<le> real (10 * ?k)" "real (10 * ?k) < real (n + 10)"
    by (simp_all only: of_nat_le_iff of_nat_less_iff)
  then have "\<lceil>real n / 10\<rceil> = int ?k"
    by (intro ceiling_unique) auto
  then show ?thesis by simp
qed

lemma totalPagesOf_div: "totalPagesOf as = (length as + 9) div 10"
  by (simp add: totalPagesOf_def POSTS_PER_PAGE_def ceil_div10)

lemma pageArticlesOf_take_drop:
  "pageArticlesOf as i = take 10 (drop ((i - 1) * 10) as)"
  by (simp add: pageArticlesOf_def slice_def POSTS_PER_PAGE_def)

lemma pageArticlesOf_drop_take:
  assumes "1 \<le> i"
  shows "pageArticlesOf as i = drop ((i - 1) * 10) (take (i * 10) as)"
proof -
  from assms have "i * 10 = 10 + (i - 1) * 10" by (cases i) simp_all
  then show ?thesis
    by (simp add: pageArticlesOf_take_drop drop_take)
qed

lemma length_pageArticlesOf:
  "length (pageArticlesOf as i) = min 10 (length as - (i - 1) * 10)"
  by (simp add: pageArticlesOf_take_drop min.commute)

lemma concat_pages_from:
  "concat (map (\<lambda>i. take 10 (drop (i * 10) as)) [k ..< k + m]) = take (m * 10) (drop (k * 10) as)"
proof (induction m arbitrary: k)
  case 0
  then show ?case by simp
next
  case (Suc m)
  have "[k ..< k + Suc m] = k # [Suc k ..< Suc k + m]"
    by (simp add: upt_conv_Cons)
  then have "concat (map (\<lambda>i. take 10 (drop (i * 10) as)) [k ..< k + Suc m]) =
      take 10 (drop (k * 10) as) @ take (m * 10) (drop (Suc k * 10) as)"
    using Suc.IH [of "Suc k"] by simp
  also have "drop (Suc k * 10) as = drop 10 (drop (k * 10) as)"
    by (simp add: add.commute)
  also have "take 10 (drop (k * 10) as) @ take (m * 10) (drop 10 (drop (k * 10) as)) =
      take (10 + m * 10) (drop (k * 10) as)"
    by (rule take_add [symmetric])
  finally show ?case by simp
qed

lemma concat_pages:
  "concat (map (pageArticlesOf as) [1 ..< Suc (totalPagesOf as)]) = as"
proof -
  let ?tp = "totalPagesOf as"
  have "map (pageArticlesOf as) [1 ..< Suc ?tp] =
      map (\<lambda>i. take 10 (drop (i * 10) as)) [0 ..< 0 + ?tp]"
    by (simp add: map_Suc_upt [symmetric] pageArticlesOf_take_drop del: upt_Suc)
  then have "concat (map (pageArticlesOf as) [1 ..< Suc ?tp]) = take (?tp * 10) as"
    using concat_pages_from [of as 0 ?tp] by simp
  moreover have "length as \<le> ?tp * 10"
    unfolding totalPagesOf_div by presburger
  ultimately show ?thesis by simp
qed


lemma buildPages_eq:
  "buildPages template currentYear allArticles totalPages i st lg =
     (foldl (\<lambda>s k. writePage k (pageHtml template currentYear allArticles totalPages k) s) st
        [i ..< Suc totalPages],
      lg @ map LogBuilt [i ..< Suc totalPages])"
proof (induction template currentYear allArticles totalPages i st lg rule: buildPages.induct)
  case (1 template currentYear allArticles totalPages i st lg)
  show ?case
  proof (cases "i \<le> totalPages")
    case True
    then have "[i ..< Suc totalPages] = i # [i + 1 ..< Suc totalPages]"
      by (simp add: upt_conv_Cons)
    with True 1 show ?thesis
      by (subst buildPages.simps) simp
  next
    case False
    then show ?thesis
      by (subst buildPages.simps) simp
  qed
qed

text \<open>
  Claim C3. For \<open>n \<ge> 1\<close> articles and pages of 10, the number of pages is
  \<open>\<lceil>n / 10\<rceil>\<close>, the least \<open>k\<close> with \<open>n \<le> 10 k\<close>; the loop builds the pages
  \<open>1, \<dots>, k\<close> in this order; page \<open>i\<close> holds the articles of the indices from
  \<open>(i - 1) * 10\<close> up to, not including, \<open>i * 10\<close>: ten articles, but for the last page,
  which holds the rest, at least one; the pages in a row are the whole list. With 25
  articles there are 3 pages, of 10, 10 and 5 articles.
\<close>

theorem pagination_slices:
  assumes "1 \<le> length allArticles"
  shows "totalPagesOf allArticles = nat \<lceil>real (length allArticles) / 10\<rceil>
    \<and> 10 * (totalPagesOf allArticles - 1) < length allArticles
    \<and> length allArticles \<le> 10 * totalPagesOf allArticles
    \<and> (\<forall>i. 1 \<le> i \<and> i \<le> totalPagesOf allArticles \<longrightarrow>
          pageArticlesOf allArticles i = drop ((i - 1) * 10) (take (i * 10) allArticles)
          \<and> length (pageArticlesOf allArticles i) =
              (if i < totalPagesOf allArticles then 10
               else length allArticles - 10 * (totalPagesOf allArticles - 1))
          \<and> pageArticlesOf allArticles i \<noteq> [])
    \<and> concat (map (pageArticlesOf allArticles) [1 ..< Suc (totalPagesOf allArticles)]) = allArticles
    \<and> snd (buildPages template currentYear allArticles (totalPagesOf allArticles) 1 st lg) =
        lg @ map LogBuilt [1 ..< Suc (totalPagesOf allArticles)]
    \<and> (length allArticles = 25 \<longrightarrow>
          totalPagesOf allArticles = 3
          \<and> map (\<lambda>i. length (pageArticlesOf allArticles i)) [1, 2, 3] = [10, 10, 5])"
proof -
  let ?n = "length allArticles" and ?tp = "totalPagesOf allArticles"
  have tp: "?tp = (?n + 9) div 10" by (rule totalPagesOf_div)
  have 1: "?tp = nat \<lceil>real ?n / 10\<rceil>"
    by (simp add: totalPagesOf_def POSTS_PER_PAGE_def)
  have 2: "10 * (?tp - 1) < ?n" "?n \<le> 10 * ?tp"
    using assms unfolding tp by presburger+
  have 3: "pageArticlesOf allArticles i = drop ((i - 1) * 10) (take (i * 10) allArticles)
      \<and> length (pageArticlesOf allArticles i) = (if i < ?tp then 10 else ?n - 10 * (?tp - 1))
      \<and> pageArticlesOf allArticles i \<noteq> []" if "1 \<le> i \<and> i \<le> ?tp" for i
  proof -
    have "length (pageArticlesOf allArticles i) =
        (if i < ?tp then 10 else ?n - 10 * (?tp - 1))"
    proof (cases "i < ?tp")
      case True
      then have "i * 10 \<le> 10 * (?tp - 1)" by simp
      with 2 have "(i - 1) * 10 + 10 \<le> ?n" using that by (cases i) auto
      with True show ?thesis by (simp add: length_pageArticlesOf)
    next
      case False
      with that have "i = ?tp" by simp
      with False 2 show ?thesis by (simp add: length_pageArticlesOf mult.commute)
    qed
    moreover from this have "pageArticlesOf allArticles i \<noteq> []"
      using 2 by (auto split: if_splits)
    ultimately show ?thesis
      using that by (simp add: pageArticlesOf_drop_take)
  qed
  have 4: "?n = 25 \<longrightarrow> ?tp = 3
      \<and> map (\<lambda>i. length (pageArticlesOf allArticles i)) [1, 2, 3] = [10, 10, 5]"
    by (simp add: tp length_pageArticlesOf)
  have 5: "concat (map (pageArticlesOf allArticles) [1 ..< Suc ?tp]) = allArticles"
    by (rule concat_pages)
  have 6: "snd (buildPages template currentYear allArticles ?tp 1 st lg) =
      lg @ map LogBuilt [1 ..< Suc ?tp]"
    by (simp add: buildPages_eq)
  from 3 have 7: "\<forall>i. 1 \<le> i \<and> i \<le> ?tp \<longrightarrow>
      pageArticlesOf allArticles i = drop ((i - 1) * 10) (take (i * 10) allArticles)
      \<and> length (pageArticlesOf allArticles i) = (if i < ?tp then 10 else ?n - 10 * (?tp - 1))
      \<and> pageArticlesOf allArticles i \<noteq> []"
    by blast
  from 1 2 7 5 6 4 show ?thesis
    by (intro conjI)
qed

theorem pagination_slices_witness:
  "1 \<le> length (replicate 25 \<lparr> title = js ''a'', date = js ''2024-03-05'',
                                path = js ''pages/2024-03-05-a.html'',
                                filename = js ''2024-03-05-a.html'' \<rparr>)
   \<and> totalPagesOf (replicate 25 \<lparr> title = js ''a'', date = js ''2024-03-05'',
                                path = js ''pages/2024-03-05-a.html'',
                                filename = js ''2024-03-05-a.html'' \<rparr>) = 3
   \<and> map (\<lambda>i. length (pageArticlesOf
                (replicate 25 \<lparr> title = js ''a'', date = js ''2024-03-05'',
                                 path = js ''pages/2024-03-05-a.html'',
                                 filename = js ''2024-03-05-a.html'' \<rparr>) i)) [1, 2, 3] =
       [10, 10, 5]"
proof -
  let ?as = "replicate 25 \<lparr> title = js ''a'', date = js ''2024-03-05'',
      path = js ''pages/2024-03-05-a.html'', filename = js ''2024-03-05-a.html'' \<rparr>"
  have l: "1 \<le> length ?as" "length ?as = 25" by simp_all
  from pagination_slices [OF l(1), of "[]" 0 emptySite "[]"] l show ?thesis
    by blast
qed

section \<open>The fragments\<close>

lemma digit_word:
  assumes "n < 10"
  shows "isDigit (0x30 + of_nat n)"
proof -
  have "unat (0x30 + of_nat n :: jschar) = 48 + n"
    using assms by (simp add: unat_word_ariths unat_of_nat)
  then show ?thesis
    using assms by (simp add: isDigit_def word_le_nat_alt)
qed

lemma numToString_small: "n < 10 \<Longrightarrow> numToString n = [0x30 + of_nat n]"
  by (subst numToString.simps) simp

lemma numToString_large:
  "\<not> n < 10 \<Longrightarrow> numToString n = numToString (n div 10) @ [0x30 + of_nat (n mod 10)]"
  by (subst numToString.simps) simp

lemma numToString_digits: "c \<in> set (numToString n) \<Longrightarrow> isDigit c"
proof (induction n rule: numToString.induct)
  case (1 n)
  show ?case
  proof (cases "n < 10")
    case True
    with 1(2) show ?thesis
      by (simp add: numToString_small digit_word)
  next
    case False
    with 1 show ?thesis
      by (auto simp: numToString_large digit_word)
  qed
qed

lemma not_in_numToString: "\<not> isDigit c \<Longrightarrow> c \<notin> set (numToString n)"
  using numToString_digits by blast

lemma generatePaginationHtml_eq:
  assumes "1 \<le> currentPage" and "currentPage \<le> totalPages"
  shows \<open>generatePaginationHtml currentPage totalPages =
     js ''<div class="pagination">'' @ spec_prevLink currentPage
     @ pageIndicator currentPage totalPages
     @ spec_nextLink currentPage totalPages @ js ''</div>''\<close>
  using assms
  by (auto simp: generatePaginationHtml_def Let_def spec_prevLink_def spec_nextLink_def)

lemmas pagination_eval =
  pageIndicator_def paginationLink_def prevLabel_def nextLabel_def spec_prevLink_def
  spec_nextLink_def js_simps

lemma no_prev_label:
  \<open>0xAB \<notin> set (js ''<div class="pagination">'' @ pageIndicator currentPage totalPages
     @ spec_nextLink currentPage totalPages @ js ''</div>'')\<close>
  by (simp add: pagination_eval not_in_numToString isDigit_def)

lemma no_next_label:
  \<open>0xBB \<notin> set (js ''<div class="pagination">'' @ spec_prevLink currentPage
     @ pageIndicator currentPage totalPages @ js ''</div>'')\<close>
  by (simp add: pagination_eval not_in_numToString isDigit_def)

text \<open>
  Claim C4. For a page \<open>currentPage\<close> between 1 and \<open>totalPages\<close>, the pagination
  fragment is the opening tag, the previous link, the page indicator, the next link and
  the closing tag. There is no previous link on page 1 (the fragment is without the
  character of its label); on page 2 the previous link goes to \<^verbatim>\<open>/\<close>, on a later page to
  \<^verbatim>\<open>/archives/<currentPage-1>/\<close>. There is no next link on the last page; on any other
  the next link goes to \<^verbatim>\<open>/archives/<currentPage+1>/\<close>. The indicator with both numbers
  is there in every case.
\<close>

theorem generatePaginationHtml_links:
  assumes "1 \<le> currentPage" and "currentPage \<le> totalPages"
  shows \<open>generatePaginationHtml currentPage totalPages =
       js ''<div class="pagination">'' @ spec_prevLink currentPage
       @ pageIndicator currentPage totalPages
       @ spec_nextLink currentPage totalPages @ js ''</div>''
     \<and> (currentPage = 1 \<longrightarrow> 0xAB \<notin> set (generatePaginationHtml currentPage totalPages))
     \<and> (currentPage = totalPages \<longrightarrow>
          0xBB \<notin> set (generatePaginationHtml currentPage totalPages))\<close>
proof -
  note eq = generatePaginationHtml_eq [OF assms]
  have "0xAB \<notin> set (generatePaginationHtml currentPage totalPages)" if "currentPage = 1"
    unfolding eq using that no_prev_label [of currentPage totalPages]
    by (simp add: spec_prevLink_def)
  moreover have "0xBB \<notin> set (generatePaginationHtml currentPage totalPages)"
    if "currentPage = totalPages"
    unfolding eq using that no_next_label [of currentPage totalPages]
    by (simp add: spec_nextLink_def)
  ultimately show ?thesis using eq by blast
qed

text \<open>The three pages of the specification: 1, 2 and 3 of 3.\<close>

theorem generatePaginationHtml_links_witness:
  \<open>(1::nat) \<le> 1 \<and> (1::nat) \<le> 3 \<and> (1::nat) \<le> 2 \<and> (2::nat) \<le> 3 \<and> (3::nat) \<le> 3
   \<and> generatePaginationHtml 1 3 =
       js ''<div class="pagination"><span class="pagination-current">'' @ [0x7B2C]
       @ js '' 1 / 3 '' @ [0x9875]
       @ js ''</span><a href="/archives/2/" class="pagination-link">'' @ nextLabel
       @ js ''</a></div>''
   \<and> generatePaginationHtml 2 3 =
       js ''<div class="pagination"><a href="/" class="pagination-link">'' @ prevLabel
       @ js ''</a><span class="pagination-current">'' @ [0x7B2C]
       @ js '' 2 / 3 '' @ [0x9875]
       @ js ''</span><a href="/archives/3/" class="pagination-link">'' @ nextLabel
       @ js ''</a></div>''
   \<and> generatePaginationHtml 3 3 =
       js ''<div class="pagination"><a href="/archives/2/" class="pagination-link">''
       @ prevLabel @ js ''</a><span class="pagination-current">'' @ [0x7B2C]
       @ js '' 3 / 3 '' @ [0x9875] @ js ''</span></div>''\<close>
proof -
  have h: "(1::nat) \<le> 1" "(1::nat) \<le> 3" "(1::nat) \<le> 2" "(2::nat) \<le> 3" "(3::nat) \<le> 3"
    by simp_all
  show ?thesis
    using generatePaginationHtml_links [OF h(1) h(2)] generatePaginationHtml_links [OF h(3) h(4)]
      generatePaginationHtml_links [OF h(2) h(5)]
    by (simp add: pagination_eval numToString_small)
qed

lemma escapeHtml_quotes: "escapeHtml t = spec_escapeQuotes t"
proof (induction t)
  case Nil
  then show ?case by (simp add: escapeHtml_def spec_escapeQuotes_def)
next
  case (Cons c t)
  then show ?case
    by (simp add: escapeHtml_def spec_escapeQuotes_def startsWith_def js_simps)
qed

lemma spec_escapeQuotes_no_quote: "0x22 \<notin> set (spec_escapeQuotes t)"
  by (induction t) (simp_all add: spec_escapeQuotes_def js_simps)

lemma spec_escapeQuotes_id: "0x22 \<notin> set t \<Longrightarrow> spec_escapeQuotes t = t"
  by (induction t) (simp_all add: spec_escapeQuotes_def)

lemma sublist_concat: "x \<in> set xs \<Longrightarrow> sublist x (concat xs)"
proof -
  assume "x \<in> set xs"
  then obtain ys zs where "xs = ys @ x # zs"
    by (auto dest: split_list)
  then have "concat xs = concat ys @ x @ concat zs" by simp
  then show ?thesis
    unfolding sublist_def by blast
qed

lemma articleItem_in_fragment:
  assumes "a \<in> set articles"
  shows "sublist (articleItem a) (generateArticlesHtml articles)"
proof -
  let ?G = "\<lambda>d. dateHeader d
      @ concat (map articleItem (filter (\<lambda>b. date b = d) articles)) @ dateFooter"
  from assms have "date a \<in> set (sortedDates (groupByDate articles))"
    by (simp add: sortedDates_desc(2))
  then have "sublist (?G (date a)) (generateArticlesHtml articles)"
    unfolding generateArticlesHtml_groups by (intro sublist_concat) (simp add: image_iff, blast)
  moreover from assms have "sublist (articleItem a)
      (concat (map articleItem (filter (\<lambda>b. date b = date a) articles)))"
    by (intro sublist_concat) simp
  then have "sublist (articleItem a) (?G (date a))"
    by (meson sublist_appendI sublist_order.order_trans)
  ultimately show ?thesis
    by (rule sublist_order.order_trans [rotated])
qed

text \<open>
  Claim C5. The entry of an article shows the title as it is in the link text, and
  carries it in the \<^verbatim>\<open>data-title\<close> attribute with every double quote replaced by
  \<^verbatim>\<open>&quot;\<close> and every other character kept: no double quote is left in the attribute,
  and a title without double quotes is there unchanged. The entry of every article of a
  list is part of the fragment of the list.
\<close>

theorem articleItem_title_escaping:
  \<open>articleItem a =
       js ''\<newline>        <li class="article-item">\<newline>            <a href="/'' @ path a
       @ js ''" target="_blank" class="article-link">'' @ title a
       @ js ''</a>\<newline>            <button class="copy-btn" data-title="''
       @ spec_escapeQuotes (title a)
       @ js ''" data-path="'' @ path a
       @ js ''">'' @ copyLabel @ js ''</button>\<newline>        </li>\<newline>''
     \<and> 0x22 \<notin> set (spec_escapeQuotes (title a))
     \<and> (0x22 \<notin> set (title a) \<longrightarrow> spec_escapeQuotes (title a) = title a)
     \<and> (a \<in> set articles \<longrightarrow> sublist (articleItem a) (generateArticlesHtml articles))\<close>
proof (intro conjI impI)
  show \<open>articleItem a =
       js ''\<newline>        <li class="article-item">\<newline>            <a href="/'' @ path a
       @ js ''" target="_blank" class="article-link">'' @ title a
       @ js ''</a>\<newline>            <button class="copy-btn" data-title="''
       @ spec_escapeQuotes (title a)
       @ js ''" data-path="'' @ path a
       @ js ''">'' @ copyLabel @ js ''</button>\<newline>        </li>\<newline>''\<close>
    by (simp add: articleItem_def escapeHtml_quotes)
  show "0x22 \<notin> set (spec_escapeQuotes (title a))"
    by (rule spec_escapeQuotes_no_quote)
  show "spec_escapeQuotes (title a) = title a" if "0x22 \<notin> set (title a)"
    using that by (rule spec_escapeQuotes_id)
  show "sublist (articleItem a) (generateArticlesHtml articles)" if "a \<in> set articles"
    using that by (rule articleItem_in_fragment)
qed

lemmas fragment_eval =
  articleItem_def escapeHtml_def copyLabel_def dateHeader_def dateFooter_def
  generateArticlesHtml_def groupByDate_def sortedDates_def dateGroup_def groupOf_def
  startsWith_def

theorem articleItem_title_escaping_witness:
  \<open>0x22 \<notin> set (js ''plain'')
   \<and> spec_escapeQuotes (js ''plain'') = js ''plain''
   \<and> articleItem \<lparr> title = js ''say "hi"'', date = js ''2024-03-05'',
                     path = js ''pages/2024-03-05-say "hi".html'',
                     filename = js ''2024-03-05-say "hi".html'' \<rparr> =
       js ''\<newline>        <li class="article-item">\<newline>            <a href="/pages/2024-03-05-say "hi".html" target="_blank" class="article-link">say "hi"</a>\<newline>            <button class="copy-btn" data-title="say &quot;hi&quot;" data-path="pages/2024-03-05-say "hi".html">''
       @ copyLabel @ js ''</button>\<newline>        </li>\<newline>''
   \<and> sublist (articleItem \<lparr> title = js ''plain'', date = js ''2024-03-05'',
                     path = js ''pages/2024-03-05-plain.html'',
                     filename = js ''2024-03-05-plain.html'' \<rparr>)
        (generateArticlesHtml [\<lparr> title = js ''plain'', date = js ''2024-03-05'',
                     path = js ''pages/2024-03-05-plain.html'',
                     filename = js ''2024-03-05-plain.html'' \<rparr>])\<close>
proof -
  let ?a = \<open>\<lparr> title = js ''say "hi"'', date = js ''2024-03-05'',
      path = js ''pages/2024-03-05-say "hi".html'',
      filename = js ''2024-03-05-say "hi".html'' \<rparr>\<close>
  let ?b = "\<lparr> title = js ''plain'', date = js ''2024-03-05'',
      path = js ''pages/2024-03-05-plain.html'', filename = js ''2024-03-05-plain.html'' \<rparr>"
  have q: "0x22 \<notin> set (js ''plain'')"
    by (simp add: js_simps)
  have e: \<open>spec_escapeQuotes (js ''say "hi"'') = js ''say &quot;hi&quot;''\<close>
    by (simp add: spec_escapeQuotes_def js_simps)
  from articleItem_title_escaping [of ?a "[]", THEN conjunct1] e have 1: \<open>articleItem ?a =
       js ''\<newline>        <li class="article-item">\<newline>            <a href="/pages/2024-03-05-say "hi".html" target="_blank" class="article-link">say "hi"</a>\<newline>            <button class="copy-btn" data-title="say &quot;hi&quot;" data-path="pages/2024-03-05-say "hi".html">''
       @ copyLabel @ js ''</button>\<newline>        </li>\<newline>''\<close>
    by (simp add: js_def)
  note b = articleItem_title_escaping [of ?b "[?b]"]
  from b [THEN conjunct2, THEN conjunct2, THEN conjunct1] q
  have 2: "spec_escapeQuotes (js ''plain'') = js ''plain''"
    by simp
  from b [THEN conjunct2, THEN conjunct2, THEN conjunct2]
  have 3: "sublist (articleItem ?b) (generateArticlesHtml [?b])"
    by simp
  from q 2 1 3 show ?thesis by (intro conjI)
qed

text \<open>
  Claim C10. The entry carries the path in the \<^verbatim>\<open>data-path\<close> attribute as it is: for an
  article parsed from a file name, the value is \<^verbatim>\<open>pages/\<close> followed by the file name.
  There is a file name with a double quote whose entry has the attribute with the quote
  in it.
\<close>

theorem articleItem_path_verbatim:
  \<open>(getArticleFromFilename file = Some a \<longrightarrow>
       articleItem a =
         js ''\<newline>        <li class="article-item">\<newline>            <a href="/pages/'' @ file
         @ js ''" target="_blank" class="article-link">'' @ title a
         @ js ''</a>\<newline>            <button class="copy-btn" data-title="''
         @ escapeHtml (title a)
         @ js ''" data-path="'' @ js ''pages/'' @ file
         @ js ''">'' @ copyLabel @ js ''</button>\<newline>        </li>\<newline>'')
   \<and> (\<exists>f b. 0x22 \<in> set f \<and> getArticleFromFilename f = Some b
          \<and> sublist (js ''data-path="pages/'' @ f @ js ''">'') (articleItem b))\<close>
proof (intro conjI impI)
  assume "getArticleFromFilename file = Some a"
  then have "path a = js ''pages/'' @ file"
    by (rule getArticleFromFilename_SomeD)
  then show \<open>articleItem a =
         js ''\<newline>        <li class="article-item">\<newline>            <a href="/pages/'' @ file
         @ js ''" target="_blank" class="article-link">'' @ title a
         @ js ''</a>\<newline>            <button class="copy-btn" data-title="''
         @ escapeHtml (title a)
         @ js ''" data-path="'' @ js ''pages/'' @ file
         @ js ''">'' @ copyLabel @ js ''</button>\<newline>        </li>\<newline>''\<close>
    by (simp add: articleItem_def js_def)
next
  let ?f = \<open>js ''2024-03-05-a"b.html''\<close>
  let ?b = \<open>\<lparr> title = js ''a"b'', date = js ''2024-03-05'', path = js ''pages/'' @ ?f,
      filename = ?f \<rparr>\<close>
  have 1: "0x22 \<in> set ?f"
    by (simp add: js_simps)
  have 2: "getArticleFromFilename ?f = Some ?b"
    by (simp add: parse_eval)
  have \<open>articleItem ?b =
      (js ''\<newline>        <li class="article-item">\<newline>            <a href="/'' @ path ?b
       @ js ''" target="_blank" class="article-link">'' @ title ?b
       @ js ''</a>\<newline>            <button class="copy-btn" data-title="'' @ escapeHtml (title ?b)
       @ js ''" '')
      @ (js ''data-path="pages/'' @ ?f @ js ''">'')
      @ (copyLabel @ js ''</button>\<newline>        </li>\<newline>'')\<close>
    by (simp add: articleItem_def js_def)
  then have 3: \<open>sublist (js ''data-path="pages/'' @ ?f @ js ''">'') (articleItem ?b)\<close>
    unfolding sublist_def by blast
  from 1 2 3 show \<open>\<exists>f b. 0x22 \<in> set f \<and> getArticleFromFilename f = Some b
      \<and> sublist (js ''data-path="pages/'' @ f @ js ''">'') (articleItem b)\<close>
    by blast
qed

theorem articleItem_path_verbatim_witness:
  \<open>getArticleFromFilename (js ''2024-03-05-a"b.html'') =
     Some \<lparr> title = js ''a"b'', date = js ''2024-03-05'',
             path = js ''pages/2024-03-05-a"b.html'', filename = js ''2024-03-05-a"b.html'' \<rparr>
   \<and> articleItem \<lparr> title = js ''a"b'', date = js ''2024-03-05'',
             path = js ''pages/2024-03-05-a"b.html'', filename = js ''2024-03-05-a"b.html'' \<rparr> =
       js ''\<newline>        <li class="article-item">\<newline>            <a href="/pages/2024-03-05-a"b.html" target="_blank" class="article-link">a"b</a>\<newline>            <button class="copy-btn" data-title="a&quot;b" data-path="pages/2024-03-05-a"b.html">''
       @ copyLabel @ js ''</button>\<newline>        </li>\<newline>''\<close>
proof -
  let ?f = \<open>js ''2024-03-05-a"b.html''\<close>
  let ?b = \<open>\<lparr> title = js ''a"b'', date = js ''2024-03-05'',
      path = js ''pages/2024-03-05-a"b.html'', filename = js ''2024-03-05-a"b.html'' \<rparr>\<close>
  have 1: "getArticleFromFilename ?f = Some ?b"
    by (simp add: parse_eval)
  have e: \<open>escapeHtml (js ''a"b'') = js ''a&quot;b''\<close>
    by (simp add: escapeHtml_def startsWith_def js_simps)
  from articleItem_path_verbatim [of ?f ?b, THEN conjunct1] 1 e
  have 2: \<open>articleItem ?b =
       js ''\<newline>        <li class="article-item">\<newline>            <a href="/pages/2024-03-05-a"b.html" target="_blank" class="article-link">a"b</a>\<newline>            <button class="copy-btn" data-title="a&quot;b" data-path="pages/2024-03-05-a"b.html">''
       @ copyLabel @ js ''</button>\<newline>        </li>\<newline>''\<close>
    by (simp add: js_def)
  from 1 2 show ?thesis by (intro conjI)
qed

section \<open>Properties of the build\<close>

lemma allArticlesOf_Nil_iff:
  "allArticlesOf lc allFiles = [] \<longleftrightarrow> (\<forall>f \<in> set allFiles. getArticleFromFilename f = None)"
proof
  assume e: "allArticlesOf lc allFiles = []"
  show "\<forall>f \<in> set allFiles. getArticleFromFilename f = None"
  proof (rule ballI, rule ccontr)
    fix f
    assume "f \<in> set allFiles" and "getArticleFromFilename f \<noteq> None"
    then obtain a where "f \<in> set allFiles" "getArticleFromFilename f = Some a"
      by blast
    then have "a \<in> set (allArticlesOf lc allFiles)"
      unfolding set_allArticlesOf by blast
    with e show False by simp
  qed
next
  assume "\<forall>f \<in> set allFiles. getArticleFromFilename f = None"
  then have "set (allArticlesOf lc allFiles) = {}"
    unfolding set_allArticlesOf by simp
  then show "allArticlesOf lc allFiles = []"
    by simp
qed

lemma update_fresh: "k \<notin> fst ` set al \<Longrightarrow> AList.update k v al = al @ [(k, v)]"
  by (induction al) auto

lemma foldl_writePage_archives:
  assumes "\<forall>k \<in> set ks. 2 \<le> k" and "distinct ks"
    and "set ks \<inter> fst ` set (siteArchives st) = {}"
  shows "foldl (\<lambda>s k. writePage k (h k) s) st ks =
           st\<lparr> siteArchives := siteArchives st @ map (\<lambda>k. (k, h k)) ks \<rparr>"
  using assms
proof (induction ks arbitrary: st)
  case Nil
  then show ?case by simp
next
  case (Cons k ks)
  let ?st = "st\<lparr> siteArchives := siteArchives st @ [(k, h k)] \<rparr>"
  from Cons.prems have k: "2 \<le> k" "k \<notin> fst ` set (siteArchives st)"
    by auto
  then have w: "writePage k (h k) st = ?st"
    by (simp add: writePage_def update_fresh)
  have "set ks \<inter> fst ` set (siteArchives ?st) = {}"
    using Cons.prems by auto
  with Cons.prems have "foldl (\<lambda>s k. writePage k (h k) s) ?st ks =
      ?st\<lparr> siteArchives := siteArchives ?st @ map (\<lambda>k. (k, h k)) ks \<rparr>"
    by (intro Cons.IH) auto
  with w show ?case by simp
qed

lemma buildPages_site:
  assumes "1 \<le> totalPages" and "siteArchives st = []"
  shows "buildPages template currentYear allArticles totalPages 1 st lg =
     (st\<lparr> siteIndex := Some (pageHtml template currentYear allArticles totalPages 1),
          siteArchives :=
            map (\<lambda>k. (k, pageHtml template currentYear allArticles totalPages k))
              [2 ..< Suc totalPages] \<rparr>,
      lg @ map LogBuilt [1 ..< Suc totalPages])"
proof -
  let ?h = "pageHtml template currentYear allArticles totalPages"
  let ?f = "\<lambda>s k. writePage k (?h k) s"
  let ?st = "st\<lparr> siteIndex := Some (?h 1) \<rparr>"
  from assms(1) have "[1 ..< Suc totalPages] = 1 # [Suc 1 ..< Suc totalPages]"
    by (intro upt_conv_Cons) simp
  also have "Suc 1 = 2"
    by simp
  finally have "foldl ?f st [1 ..< Suc totalPages] = foldl ?f (writePage 1 (?h 1) st) [2 ..< Suc totalPages]"
    by (simp only: foldl_Cons)
  also have "writePage 1 (?h 1) st = ?st"
    by (simp add: writePage_def)
  also have "foldl ?f ?st [2 ..< Suc totalPages] =
      ?st\<lparr> siteArchives := siteArchives ?st @ map (\<lambda>k. (k, ?h k)) [2 ..< Suc totalPages] \<rparr>"
    using assms(2) by (intro foldl_writePage_archives) (simp_all del: upt_Suc)
  also have "\<dots> = st\<lparr> siteIndex := Some (?h 1),
      siteArchives := map (\<lambda>k. (k, ?h k)) [2 ..< Suc totalPages] \<rparr>"
    using assms(2) by (simp del: upt_Suc)
  finally show ?thesis
    by (simp only: buildPages_eq)
qed

lemma totalPagesOf_pos: "allArticles \<noteq> [] \<Longrightarrow> 1 \<le> totalPagesOf allArticles"
  unfolding totalPagesOf_div by (cases allArticles) simp_all

lemma run_no_pages:
  assumes "pagesDir fs0 = None"
  shows "run lc currentYear fs0 =
     \<lparr> thrown = Some PagesDirMissing, files = fs0\<lparr> siteDir := Some emptySite \<rparr>,
       console = [LogCleaned] \<rparr>"
  using assms by (simp add: run_def)

lemma run_no_articles:
  assumes "pagesDir fs0 = Some entries" and "allArticlesOf lc (map fst entries) = []"
  shows "run lc currentYear fs0 =
     \<lparr> thrown = None,
       files = fs0\<lparr> siteDir := Some
         \<lparr> sitePages = Some entries, siteIndex = None, siteArchives = [] \<rparr> \<rparr>,
       console = [LogCleaned, LogCopied, LogNoArticles] \<rparr>"
  using assms by (simp add: run_def emptySite_def)

lemma run_no_template:
  assumes "pagesDir fs0 = Some entries" and "allArticlesOf lc (map fst entries) \<noteq> []"
    and "templateFile fs0 = None"
  shows "run lc currentYear fs0 =
     \<lparr> thrown = Some TemplateMissing,
       files = fs0\<lparr> siteDir := Some
         \<lparr> sitePages = Some entries, siteIndex = None, siteArchives = [] \<rparr> \<rparr>,
       console = [LogCleaned, LogCopied] \<rparr>"
  using assms by (simp add: run_def emptySite_def)

lemma run_pages:
  assumes "pagesDir fs0 = Some entries" and "allArticlesOf lc (map fst entries) = allArticles"
    and "allArticles \<noteq> []" and "templateFile fs0 = Some template"
  shows "run lc currentYear fs0 =
     \<lparr> thrown = None,
       files = fs0\<lparr> siteDir := Some
         \<lparr> sitePages = Some entries,
           siteIndex = Some (pageHtml template currentYear allArticles (totalPagesOf allArticles) 1),
           siteArchives =
             map (\<lambda>k. (k, pageHtml template currentYear allArticles (totalPagesOf allArticles) k))
               [2 ..< Suc (totalPagesOf allArticles)] \<rparr> \<rparr>,
       console = [LogCleaned, LogCopied]
         @ map LogBuilt [1 ..< Suc (totalPagesOf allArticles)]
         @ [LogTotal (totalPagesOf allArticles)] \<rparr>"
proof -
  let ?st2 = "\<lparr> sitePages = Some entries, siteIndex = None, siteArchives = [] \<rparr> :: 'a site"
  have "siteArchives ?st2 = []"
    by simp
  note b = buildPages_site [OF totalPagesOf_pos [OF assms(3)] this,
      of template currentYear allArticles "[LogCleaned, LogCopied]"]
  show ?thesis
    unfolding run_def Let_def using assms
    by (simp add: b emptySite_def del: One_nat_def upt_Suc)
qed

text \<open>The four ways the build ends, each with the output directory it leaves.\<close>

lemma run_cases:
  obtains
    (no_pages) "pagesDir fs0 = None"
      "run lc currentYear fs0 =
         \<lparr> thrown = Some PagesDirMissing, files = fs0\<lparr> siteDir := Some emptySite \<rparr>,
           console = [LogCleaned] \<rparr>"
  | (other) entries st e lg where "pagesDir fs0 = Some entries"
      "run lc currentYear fs0 = \<lparr> thrown = e, files = fs0\<lparr> siteDir := Some st \<rparr>, console = lg \<rparr>"
      "\<And>fs1. pagesDir fs1 = pagesDir fs0 \<Longrightarrow> templateFile fs1 = templateFile fs0 \<Longrightarrow>
         run lc currentYear fs1 =
           \<lparr> thrown = e, files = fs1\<lparr> siteDir := Some st \<rparr>, console = lg \<rparr>"
proof (cases "pagesDir fs0")
  case None
  then show ?thesis by (intro no_pages run_no_pages)
next
  case (Some entries)
  show ?thesis
  proof (cases "allArticlesOf lc (map fst entries) = []")
    case True
    with Some show ?thesis
      by (intro other [of entries]) (simp_all add: run_no_articles)
  next
    case False
    show ?thesis
    proof (cases "templateFile fs0")
      case None
      with Some False show ?thesis
        by (intro other [of entries]) (simp_all add: run_no_template)
    next
      case (Some template)
      with \<open>pagesDir fs0 = Some entries\<close> False show ?thesis
        by (intro other [of entries]) (simp_all add: run_pages del: upt_Suc)
    qed
  qed
qed

lemma run_cong:
  assumes "pagesDir fs1 = pagesDir fs0" and "templateFile fs1 = templateFile fs0"
  shows "thrown (run lc currentYear fs1) = thrown (run lc currentYear fs0)"
    "siteDir (files (run lc currentYear fs1)) = siteDir (files (run lc currentYear fs0))"
    "console (run lc currentYear fs1) = console (run lc currentYear fs0)"
proof -
  have "thrown (run lc currentYear fs1) = thrown (run lc currentYear fs0)
    \<and> siteDir (files (run lc currentYear fs1)) = siteDir (files (run lc currentYear fs0))
    \<and> console (run lc currentYear fs1) = console (run lc currentYear fs0)"
  proof (cases rule: run_cases [of fs0 lc currentYear])
    case no_pages
    with assms(1) show ?thesis by (simp add: run_no_pages)
  next
    case (other entries st e lg)
    from other(3) [OF assms] other(2) show ?thesis by simp
  qed
  then show "thrown (run lc currentYear fs1) = thrown (run lc currentYear fs0)"
    "siteDir (files (run lc currentYear fs1)) = siteDir (files (run lc currentYear fs0))"
    "console (run lc currentYear fs1) = console (run lc currentYear fs0)"
    by blast+
qed

lemma run_sources:
  "pagesDir (files (run lc currentYear fs0)) = pagesDir fs0"
  "templateFile (files (run lc currentYear fs0)) = templateFile fs0"
  by (cases rule: run_cases [of fs0 lc currentYear]; simp)+

lemma run_idem:
  "run lc currentYear (files (run lc currentYear fs0)) = run lc currentYear fs0"
proof -
  let ?r = "run lc currentYear fs0"
  let ?r' = "run lc currentYear (files ?r)"
  have s: "pagesDir (files ?r) = pagesDir fs0" "templateFile (files ?r) = templateFile fs0"
    by (rule run_sources)+
  note c = run_cong [OF s, of lc currentYear]
  have "pagesDir (files ?r') = pagesDir (files ?r)" "templateFile (files ?r') = templateFile (files ?r)"
    by (rule run_sources)+
  with c(2) have "files ?r' = files ?r"
    by (intro filesystem.equality) simp_all
  with c(1,3) show ?thesis
    by (intro outcome.equality) simp_all
qed

section \<open>Properties of the template substitution\<close>

lemma getSubstitution_plain:
  "0x24 \<notin> set replacement \<Longrightarrow>
     getSubstitution matched preceding following replacement = replacement"
  by (induction matched preceding following replacement rule: getSubstitution.induct) auto

lemma replaceFirst_plain:
  "0x24 \<notin> set replacement \<Longrightarrow>
     replaceFirst pat replacement s = spec_replaceLiteral pat replacement s"
  by (simp add: replaceFirst_def spec_replaceLiteral_def getSubstitution_plain Let_def
      split: option.splits)

lemma fillTemplate_plain:
  assumes "0x24 \<notin> set articlesHtml" and "0x24 \<notin> set paginationHtml"
  shows "fillTemplate template articlesHtml paginationHtml currentYear =
     spec_fillTemplate template articlesHtml paginationHtml currentYear"
proof -
  have "0x24 \<notin> set (numToString currentYear)"
    by (rule not_in_numToString) (simp add: isDigit_def)
  with assms show ?thesis
    by (simp add: fillTemplate_def spec_fillTemplate_def replaceFirst_plain Let_def)
qed

lemmas template_eval =
  replaceFirst_def ARCHIVES_PLACEHOLDER_def PAGINATION_PLACEHOLDER_def
  YEAR_PLACEHOLDER_def exampleTemplate_def Let_def startsWith_def js_simps

lemmas item_eval =
  articleItem_def escapeHtml_def copyLabel_def dateHeader_def dateFooter_def

lemma numToString_2024: "numToString 2024 = js ''2024''"
  by (simp add: numToString_large numToString_small js_simps)

lemma generateArticlesHtml_single:
  "generateArticlesHtml [a] = dateHeader (date a) @ articleItem a @ dateFooter"
  by (simp add: generateArticlesHtml_def groupByDate_def sortedDates_def dateGroup_def groupOf_def)

lemma generatePaginationHtml_1_1:
  \<open>generatePaginationHtml 1 1 =
     js ''<div class="pagination"><span class="pagination-current">'' @ [0x7B2C]
     @ js '' 1 / 1 '' @ [0x9875] @ js ''</span></div>''\<close>
  by (simp add: generatePaginationHtml_def pagination_eval numToString_small)

text \<open>The page of the single file \<^verbatim>\<open>2024-01-01-$&.html\<close>, one \<^verbatim>\<open>replace\<close> at a time.\<close>

lemma dollar_articles:
  "allArticlesOf localeCompareRoot [js ''2024-01-01-$&.html''] =
     [\<lparr> title = js ''$&'', date = js ''2024-01-01'', path = js ''pages/2024-01-01-$&.html'',
        filename = js ''2024-01-01-$&.html'' \<rparr>]"
  by (simp add: sort_eval)

lemma dollar_archives:
  "replaceFirst ARCHIVES_PLACEHOLDER
     (generateArticlesHtml [\<lparr> title = js ''$&'', date = js ''2024-01-01'',
        path = js ''pages/2024-01-01-$&.html'', filename = js ''2024-01-01-$&.html'' \<rparr>])
     exampleTemplate =
   js ''<main>''
   @ generateArticlesHtml [\<lparr> title = ARCHIVES_PLACEHOLDER, date = js ''2024-01-01'',
        path = js ''pages/2024-01-01-'' @ ARCHIVES_PLACEHOLDER @ js ''.html'',
        filename = js ''2024-01-01-$&.html'' \<rparr>]
   @ js ''</main><nav><!-- PAGINATION_PLACEHOLDER --></nav><footer><!-- YEAR_PLACEHOLDER --></footer>''"
  unfolding generateArticlesHtml_single
  by (simp add: template_eval item_eval)

lemma dollar_pagination:
  "replaceFirst PAGINATION_PLACEHOLDER (generatePaginationHtml 1 1)
     (js ''<main>''
      @ generateArticlesHtml [\<lparr> title = ARCHIVES_PLACEHOLDER, date = js ''2024-01-01'',
          path = js ''pages/2024-01-01-'' @ ARCHIVES_PLACEHOLDER @ js ''.html'',
          filename = js ''2024-01-01-$&.html'' \<rparr>]
      @ js ''</main><nav><!-- PAGINATION_PLACEHOLDER --></nav><footer><!-- YEAR_PLACEHOLDER --></footer>'') =
   js ''<main>''
   @ generateArticlesHtml [\<lparr> title = ARCHIVES_PLACEHOLDER, date = js ''2024-01-01'',
        path = js ''pages/2024-01-01-'' @ ARCHIVES_PLACEHOLDER @ js ''.html'',
        filename = js ''2024-01-01-$&.html'' \<rparr>]
   @ js ''</main><nav>'' @ generatePaginationHtml 1 1
   @ js ''</nav><footer><!-- YEAR_PLACEHOLDER --></footer>''"
  unfolding generateArticlesHtml_single generatePaginationHtml_1_1
  by (simp add: template_eval item_eval)

lemma dollar_year:
  "replaceFirst YEAR_PLACEHOLDER (numToString 2024)
     (js ''<main>''
      @ generateArticlesHtml [\<lparr> title = ARCHIVES_PLACEHOLDER, date = js ''2024-01-01'',
          path = js ''pages/2024-01-01-'' @ ARCHIVES_PLACEHOLDER @ js ''.html'',
          filename = js ''2024-01-01-$&.html'' \<rparr>]
      @ js ''</main><nav>'' @ generatePaginationHtml 1 1
      @ js ''</nav><footer><!-- YEAR_PLACEHOLDER --></footer>'') =
   js ''<main>''
   @ generateArticlesHtml [\<lparr> title = ARCHIVES_PLACEHOLDER, date = js ''2024-01-01'',
        path = js ''pages/2024-01-01-'' @ ARCHIVES_PLACEHOLDER @ js ''.html'',
        filename = js ''2024-01-01-$&.html'' \<rparr>]
   @ js ''</main><nav>'' @ generatePaginationHtml 1 1
   @ js ''</nav><footer>2024</footer>''"
  unfolding generateArticlesHtml_single generatePaginationHtml_1_1 numToString_2024
  by (simp add: template_eval item_eval)

lemma pageArticlesOf_single: "pageArticlesOf [a] 1 = [a]"
  by (simp add: pageArticlesOf_take_drop)

text \<open>
  Claim C8 fails on a fragment with a \<^verbatim>\<open>$\<close> pattern. The directory holds the one file
  \<^verbatim>\<open>2024-01-01-$&.html\<close>, the template has each placeholder once. \<^verbatim>\<open>replace\<close> expands
  every \<^verbatim>\<open>$&\<close> of the article list to the placeholder it has just matched: the page
  shows the placeholder where the title and the path should be, and is not the template
  with the fragments put in as they are. (Fragments without \<^verbatim>\<open>$\<close> are put in as they
  are: \<open>fillTemplate_plain\<close>.)
\<close>

theorem pageHtml_dollar_pattern:
  "pageHtml exampleTemplate 2024 (allArticlesOf localeCompareRoot [js ''2024-01-01-$&.html'']) 1 1 =
     js ''<main>''
     @ generateArticlesHtml [\<lparr> title = ARCHIVES_PLACEHOLDER, date = js ''2024-01-01'',
          path = js ''pages/2024-01-01-'' @ ARCHIVES_PLACEHOLDER @ js ''.html'',
          filename = js ''2024-01-01-$&.html'' \<rparr>]
     @ js ''</main><nav>'' @ generatePaginationHtml 1 1 @ js ''</nav><footer>2024</footer>''
   \<and> pageHtml exampleTemplate 2024 (allArticlesOf localeCompareRoot [js ''2024-01-01-$&.html'']) 1 1 \<noteq>
     js ''<main>''
     @ generateArticlesHtml (allArticlesOf localeCompareRoot [js ''2024-01-01-$&.html''])
     @ js ''</main><nav>'' @ generatePaginationHtml 1 1 @ js ''</nav><footer>2024</footer>''"
proof -
  let ?a = "\<lparr> title = js ''$&'', date = js ''2024-01-01'', path = js ''pages/2024-01-01-$&.html'',
      filename = js ''2024-01-01-$&.html'' \<rparr>"
  let ?a' = "\<lparr> title = ARCHIVES_PLACEHOLDER, date = js ''2024-01-01'',
      path = js ''pages/2024-01-01-'' @ ARCHIVES_PLACEHOLDER @ js ''.html'',
      filename = js ''2024-01-01-$&.html'' \<rparr>"
  have 1: "pageHtml exampleTemplate 2024 [?a] 1 1 =
      js ''<main>'' @ generateArticlesHtml [?a'] @ js ''</main><nav>'' @ generatePaginationHtml 1 1
      @ js ''</nav><footer>2024</footer>''"
    unfolding pageHtml_def pageArticlesOf_single fillTemplate_def Let_def
      dollar_archives dollar_pagination dollar_year
    by (rule refl)
  have "length (escapeHtml (js ''$&'')) = 2"
    by (simp add: escapeHtml_def startsWith_def js_simps)
  moreover have "length (escapeHtml ARCHIVES_PLACEHOLDER) = 29"
    by (simp add: escapeHtml_def ARCHIVES_PLACEHOLDER_def startsWith_def js_simps)
  ultimately have "length (generateArticlesHtml [?a']) \<noteq> length (generateArticlesHtml [?a])"
    unfolding generateArticlesHtml_single
    by (simp add: articleItem_def ARCHIVES_PLACEHOLDER_def)
  then have 2: "generateArticlesHtml [?a'] \<noteq> generateArticlesHtml [?a]"
    by auto
  from 1 2 show ?thesis
    unfolding dollar_articles by simp
qed

section \<open>The whole build\<close>

lemma hello_articles:
  "allArticlesOf localeCompareRoot [js ''2024-03-05-Hello%20World.html'', js ''index.html''] =
     [\<lparr> title = js ''Hello World'', date = js ''2024-03-05'',
        path = js ''pages/2024-03-05-Hello%20World.html'',
        filename = js ''2024-03-05-Hello%20World.html'' \<rparr>]"
  by (simp add: sort_eval)

lemma hello_page:
  "pageHtml exampleTemplate 2024
     [\<lparr> title = js ''Hello World'', date = js ''2024-03-05'',
        path = js ''pages/2024-03-05-Hello%20World.html'',
        filename = js ''2024-03-05-Hello%20World.html'' \<rparr>] 1 1 =
   js ''<main>''
   @ generateArticlesHtml [\<lparr> title = js ''Hello World'', date = js ''2024-03-05'',
        path = js ''pages/2024-03-05-Hello%20World.html'',
        filename = js ''2024-03-05-Hello%20World.html'' \<rparr>]
   @ js ''</main><nav>'' @ generatePaginationHtml 1 1 @ js ''</nav><footer>2024</footer>''"
proof -
  let ?a = "\<lparr> title = js ''Hello World'', date = js ''2024-03-05'',
      path = js ''pages/2024-03-05-Hello%20World.html'',
      filename = js ''2024-03-05-Hello%20World.html'' \<rparr>"
  have 1: "spec_replaceLiteral ARCHIVES_PLACEHOLDER (generateArticlesHtml [?a]) exampleTemplate =
      js ''<main>'' @ generateArticlesHtml [?a]
      @ js ''</main><nav><!-- PAGINATION_PLACEHOLDER --></nav><footer><!-- YEAR_PLACEHOLDER --></footer>''"
    by (simp add: spec_replaceLiteral_def template_eval)
  have 2: "spec_replaceLiteral PAGINATION_PLACEHOLDER (generatePaginationHtml 1 1)
      (js ''<main>'' @ generateArticlesHtml [?a]
       @ js ''</main><nav><!-- PAGINATION_PLACEHOLDER --></nav><footer><!-- YEAR_PLACEHOLDER --></footer>'') =
      js ''<main>'' @ generateArticlesHtml [?a] @ js ''</main><nav>'' @ generatePaginationHtml 1 1
      @ js ''</nav><footer><!-- YEAR_PLACEHOLDER --></footer>''"
    unfolding generateArticlesHtml_single
    by (simp add: spec_replaceLiteral_def template_eval item_eval)
  have 3: "spec_replaceLiteral YEAR_PLACEHOLDER (numToString 2024)
      (js ''<main>'' @ generateArticlesHtml [?a] @ js ''</main><nav>'' @ generatePaginationHtml 1 1
       @ js ''</nav><footer><!-- YEAR_PLACEHOLDER --></footer>'') =
      js ''<main>'' @ generateArticlesHtml [?a] @ js ''</main><nav>'' @ generatePaginationHtml 1 1
      @ js ''</nav><footer>2024</footer>''"
    unfolding generateArticlesHtml_single generatePaginationHtml_1_1 numToString_2024
    by (simp add: spec_replaceLiteral_def template_eval item_eval)
  have "0x24 \<notin> set (generateArticlesHtml [?a])"
    unfolding generateArticlesHtml_single by (simp add: item_eval startsWith_def js_simps)
  moreover have "0x24 \<notin> set (generatePaginationHtml 1 1)"
    unfolding generatePaginationHtml_1_1 by (simp add: js_simps)
  ultimately have "fillTemplate exampleTemplate (generateArticlesHtml [?a])
      (generatePaginationHtml 1 1) 2024 =
      spec_fillTemplate exampleTemplate (generateArticlesHtml [?a]) (generatePaginationHtml 1 1) 2024"
    by (rule fillTemplate_plain)
  then show ?thesis
    unfolding pageHtml_def pageArticlesOf_single Let_def spec_fillTemplate_def 1 2 3 .
qed

text \<open>
  Claim C7. When the pages directory can be read and none of its entries parses to an
  article, the build ends without an exception: the output directory is the fresh one
  with the copy of the pages and nothing else (neither \<^verbatim>\<open>index.html\<close> nor an archive
  page, whatever was there before), and the console says that no article was found.
  The template is not read.
\<close>

theorem run_without_articles:
  assumes "pagesDir fs0 = Some entries"
    and "\<forall>f \<in> set (map fst entries). getArticleFromFilename f = None"
  shows "run lc currentYear fs0 =
     \<lparr> thrown = None,
       files = fs0\<lparr> siteDir := Some
         \<lparr> sitePages = Some entries, siteIndex = None, siteArchives = [] \<rparr> \<rparr>,
       console = [LogCleaned, LogCopied, LogNoArticles] \<rparr>"
proof -
  from assms(2) have "allArticlesOf lc (map fst entries) = []"
    by (simp only: allArticlesOf_Nil_iff)
  with assms(1) show ?thesis
    by (rule run_no_articles)
qed

theorem run_without_articles_witness:
  "run localeCompareRoot 2024
     \<lparr> pagesDir = Some [(js ''index.html'', 0::nat), (js ''notes.txt'', 1)],
       templateFile = None,
       siteDir = Some \<lparr> sitePages = None, siteIndex = Some (js ''old''),
                         siteArchives = [(2, js ''old'')] \<rparr> \<rparr> =
     \<lparr> thrown = None,
       files = \<lparr> pagesDir = Some [(js ''index.html'', 0), (js ''notes.txt'', 1)],
                 templateFile = None,
                 siteDir = Some \<lparr> sitePages = Some [(js ''index.html'', 0), (js ''notes.txt'', 1)],
                                   siteIndex = None, siteArchives = [] \<rparr> \<rparr>,
       console = [LogCleaned, LogCopied, LogNoArticles] \<rparr>"
proof -
  let ?entries = "[(js ''index.html'', 0::nat), (js ''notes.txt'', 1)]"
  let ?fs = "\<lparr> pagesDir = Some ?entries, templateFile = None,
      siteDir = Some \<lparr> sitePages = None, siteIndex = Some (js ''old''),
                        siteArchives = [(2, js ''old'')] \<rparr> \<rparr>"
  have 1: "pagesDir ?fs = Some ?entries"
    by simp
  have 2: "\<forall>f \<in> set (map fst ?entries). getArticleFromFilename f = None"
    by (simp add: parse_eval)
  from run_without_articles [OF 1 2, of localeCompareRoot 2024] show ?thesis
    by simp
qed

text \<open>
  Claim C9. The build is a function of the pages directory, the template, the year and
  the collation. It leaves the pages and the template as they are, so that a second
  build right after the first ends in the same state, with the same output directory;
  and two builds from the same pages and template give the same output directory,
  exception and console, whatever the output directory held before.
\<close>

theorem run_rebuild_deterministic:
  "run lc currentYear (files (run lc currentYear fs0)) = run lc currentYear fs0
   \<and> pagesDir (files (run lc currentYear fs0)) = pagesDir fs0
   \<and> templateFile (files (run lc currentYear fs0)) = templateFile fs0
   \<and> (pagesDir fs1 = pagesDir fs0 \<and> templateFile fs1 = templateFile fs0 \<longrightarrow>
        siteDir (files (run lc currentYear fs1)) = siteDir (files (run lc currentYear fs0))
        \<and> thrown (run lc currentYear fs1) = thrown (run lc currentYear fs0)
        \<and> console (run lc currentYear fs1) = console (run lc currentYear fs0))"
  using run_idem [of lc currentYear fs0] run_sources [of lc currentYear fs0]
    run_cong [of fs1 fs0 lc currentYear]
  by blast

text \<open>
  One article and a stale output directory: the build, and the same build without the
  stale directory.
\<close>

theorem run_rebuild_deterministic_witness:
  "run localeCompareRoot 2024
     \<lparr> pagesDir = Some [(js ''2024-03-05-Hello%20World.html'', 0::nat), (js ''index.html'', 1)],
       templateFile = Some exampleTemplate,
       siteDir = Some \<lparr> sitePages = None, siteIndex = Some (js ''old''),
                         siteArchives = [(7, js ''old'')] \<rparr> \<rparr> =
     \<lparr> thrown = None,
       files = \<lparr> pagesDir = Some [(js ''2024-03-05-Hello%20World.html'', 0), (js ''index.html'', 1)],
                 templateFile = Some exampleTemplate,
                 siteDir = Some
                   \<lparr> sitePages = Some [(js ''2024-03-05-Hello%20World.html'', 0), (js ''index.html'', 1)],
                     siteIndex = Some
                       (js ''<main>''
                        @ generateArticlesHtml
                            [\<lparr> title = js ''Hello World'', date = js ''2024-03-05'',
                               path = js ''pages/2024-03-05-Hello%20World.html'',
                               filename = js ''2024-03-05-Hello%20World.html'' \<rparr>]
                        @ js ''</main><nav>'' @ generatePaginationHtml 1 1
                        @ js ''</nav><footer>2024</footer>''),
                     siteArchives = [] \<rparr> \<rparr>,
       console = [LogCleaned, LogCopied, LogBuilt 1, LogTotal 1] \<rparr>
   \<and> siteDir (files (run localeCompareRoot 2024
        \<lparr> pagesDir = Some [(js ''2024-03-05-Hello%20World.html'', 0::nat), (js ''index.html'', 1)],
          templateFile = Some exampleTemplate, siteDir = None \<rparr>)) =
     siteDir (files (run localeCompareRoot 2024
        \<lparr> pagesDir = Some [(js ''2024-03-05-Hello%20World.html'', 0::nat), (js ''index.html'', 1)],
          templateFile = Some exampleTemplate,
          siteDir = Some \<lparr> sitePages = None, siteIndex = Some (js ''old''),
                         siteArchives = [(7, js ''old'')] \<rparr> \<rparr>))"
proof -
  let ?entries = "[(js ''2024-03-05-Hello%20World.html'', 0::nat), (js ''index.html'', 1)]"
  let ?a = "\<lparr> title = js ''Hello World'', date = js ''2024-03-05'',
      path = js ''pages/2024-03-05-Hello%20World.html'',
      filename = js ''2024-03-05-Hello%20World.html'' \<rparr>"
  let ?fs0 = "\<lparr> pagesDir = Some ?entries, templateFile = Some exampleTemplate,
      siteDir = Some \<lparr> sitePages = None, siteIndex = Some (js ''old''),
                        siteArchives = [(7, js ''old'')] \<rparr> \<rparr>"
  let ?fs1 = "\<lparr> pagesDir = Some ?entries, templateFile = Some exampleTemplate,
      siteDir = None \<rparr>"
  have a: "allArticlesOf localeCompareRoot (map fst ?entries) = [?a]"
    using hello_articles by simp
  have t: "totalPagesOf [?a] = 1"
    by (simp add: totalPagesOf_div)
  have "run localeCompareRoot 2024 ?fs0 =
      \<lparr> thrown = None,
        files = ?fs0\<lparr> siteDir := Some
          \<lparr> sitePages = Some ?entries,
            siteIndex = Some (pageHtml exampleTemplate 2024 [?a] (totalPagesOf [?a]) 1),
            siteArchives = map (\<lambda>k. (k, pageHtml exampleTemplate 2024 [?a] (totalPagesOf [?a]) k))
              [2 ..< Suc (totalPagesOf [?a])] \<rparr> \<rparr>,
        console = [LogCleaned, LogCopied] @ map LogBuilt [1 ..< Suc (totalPagesOf [?a])]
          @ [LogTotal (totalPagesOf [?a])] \<rparr>"
    by (rule run_pages [OF _ a]) simp_all
  then have 1: "run localeCompareRoot 2024 ?fs0 =
      \<lparr> thrown = None,
        files = \<lparr> pagesDir = Some ?entries, templateFile = Some exampleTemplate,
          siteDir = Some \<lparr> sitePages = Some ?entries,
            siteIndex = Some (js ''<main>'' @ generateArticlesHtml [?a] @ js ''</main><nav>''
              @ generatePaginationHtml 1 1 @ js ''</nav><footer>2024</footer>''),
            siteArchives = [] \<rparr> \<rparr>,
        console = [LogCleaned, LogCopied, LogBuilt 1, LogTotal 1] \<rparr>"
    unfolding t hello_page by simp
  have "pagesDir ?fs1 = pagesDir ?fs0 \<and> templateFile ?fs1 = templateFile ?fs0"
    by simp
  with run_rebuild_deterministic [of localeCompareRoot 2024 ?fs0 ?fs1]
  have 2: "siteDir (files (run localeCompareRoot 2024 ?fs1)) =
      siteDir (files (run localeCompareRoot 2024 ?fs0))"
    by blast
  from 1 2 show ?thesis by (intro conjI)
qed

end
